theory Spec2Isabelle
  imports Main
begin

section \<open>Data model\<close>

text \<open>
  The entities of \<^verbatim>\<open>users/entities\<close> as records. A \<^verbatim>\<open>Date\<close> is its
  \<^verbatim>\<open>getTime()\<close> value (milliseconds, an integer); a generated uuid primary key is a
  number drawn from the counter \<open>next_id\<close> of the store. Only the columns that
  \<^verbatim>\<open>AuthService\<close> and \<^verbatim>\<open>UsersService\<close> read or write are kept. A many-to-one
  \<^verbatim>\<open>user\<close> relation is the id in its \<^verbatim>\<open>user_id\<close> join column.
\<close>

type_synonym time = int
type_synonym uuid = nat

datatype UserRole = CUSTOMER | ADMIN

record User =
  u_id :: uuid
  u_email :: string
  u_password_hash :: string
  u_full_name :: "string option"
  u_phone :: "string option"
  u_avatar_url :: "string option"
  u_is_email_verified :: bool
  u_role :: UserRole
  u_disabled :: bool
  u_deleted_at :: "time option"

record PreRegistration =
  pr_id :: uuid
  pr_email :: string
  pr_password_hash :: string
  pr_full_name :: "string option"
  pr_verification_token_hash :: string
  pr_expires_at :: time
  pr_ip :: string
  pr_user_agent :: string

record RefreshToken =
  rt_id :: uuid
  rt_user :: uuid
  rt_token_hash :: string
  rt_device_id :: string
  rt_ip :: string
  rt_user_agent :: string
  rt_last_seen_at :: "time option"
  rt_expires_at :: time
  rt_is_revoked :: bool

record PasswordResetToken =
  prt_id :: uuid
  prt_token_hash :: string
  prt_user_id :: uuid
  prt_expires_at :: time
  prt_used :: bool

datatype mail = VerificationEmail string string | PasswordResetEmail string string

datatype AuditAction =
  EMAIL_SEND_FAILED | REGISTER_REQUEST | EMAIL_VERIFIED | LOGIN_FAILED | LOGIN_SUCCESS
| REFRESH | LOGOUT | TOKEN_REVOKED | PASSWORD_RESET_REQUEST | PASSWORD_RESET_COMPLETED
| UPDATE_PROFILE | USER_DELETED

text \<open>
  The relational store with its four tables (a table is the list of its rows, and
  \<^verbatim>\<open>findOne\<close> returns the first row that matches), the mails handed to
  \<^verbatim>\<open>MailerService\<close> and the events handed to \<^verbatim>\<open>AuditService.enqueueLog\<close>.
\<close>

record store =
  users :: "User list"
  pre_regs :: "PreRegistration list"
  refresh_tokens :: "RefreshToken list"
  reset_tokens :: "PasswordResetToken list"
  next_id :: uuid
  outbox :: "mail list"
  audit :: "(AuditAction \<times> uuid option) list"

definition init :: store where
  "init = \<lparr>users = [], pre_regs = [], refresh_tokens = [], reset_tokens = [],
            next_id = 0, outbox = [], audit = []\<rparr>"

text \<open>
  The exceptions the services throw, with their message. \<open>TypeError\<close> is JavaScript's
  error on reading a property of \<^verbatim>\<open>null\<close>; \<open>QueryFailedError\<close> is a rejected store
  call that the service does not wrap.
\<close>

datatype exn =
  ConflictException string
| UnauthorizedException string
| NotFoundException string
| BadRequestException string
| ForbiddenException string
| InternalServerErrorException string
| TypeError
| QueryFailedError

record token_pair =
  accessToken :: "uuid \<times> UserRole list \<times> string"
  refreshToken :: string
  expiresIn :: nat

text \<open>The body of \<^verbatim>\<open>PATCH /users/me\<close> and the columns \<^verbatim>\<open>UserResponseDto\<close> exposes.\<close>

record UpdateUserDto =
  dto_full_name :: "string option"
  dto_phone :: "string option"
  dto_avatar_url :: "string option"
  dto_email :: "string option"
  dto_new_password :: "string option"
  dto_old_password :: "string option"

record UserResponseDto =
  res_id :: uuid
  res_email :: string
  res_full_name :: "string option"
  res_phone :: "string option"
  res_avatar_url :: "string option"
  res_is_email_verified :: bool
  res_role :: UserRole
  res_disabled :: bool

datatype response =
  Message string
| Verified string
| Tokens token_pair
| Refreshed string token_pair
| ResetTokenValid string
| Profile UserResponseDto
| Void

text \<open>
  What a call takes from outside the service: the clock (\<^verbatim>\<open>new Date()\<close>, one reading
  per call), the string \<^verbatim>\<open>randomBytes(n).toString('hex')\<close> returns, and, for every
  \<^verbatim>\<open>try\<close>/\<^verbatim>\<open>catch\<close> of the source, whether the call it guards throws.
\<close>

record env =
  now :: time
  random_token :: string
  mail_fails :: bool
  user_save_fails :: bool
  invalidate_fails :: bool
  reset_token_save_fails :: bool
  password_update_fails :: bool
  mark_used_fails :: bool
  revoke_all_fails :: bool

text \<open>
  The library functions the services call are parameters: of \<^verbatim>\<open>crypto\<close> and
  \<^verbatim>\<open>bcryptjs\<close>, \<^verbatim>\<open>createHash('sha256').update(x).digest('hex')\<close>,
  \<^verbatim>\<open>bcrypt.hash(x, rounds)\<close> and \<^verbatim>\<open>bcrypt.compare(x, h)\<close>; and JavaScript's
  \<^verbatim>\<open>String.prototype.toLowerCase\<close>, which lowers every cased character of Unicode.
  Nothing is assumed about any of them.
\<close>

record platform =
  sha256 :: "string \<Rightarrow> string"
  bcrypt_hash :: "string \<Rightarrow> nat \<Rightarrow> string"
  bcrypt_compare :: "string \<Rightarrow> string \<Rightarrow> bool"
  toLowerCase :: "string \<Rightarrow> string"

section \<open>Helpers\<close>

text \<open>
  A JavaScript condition on an optional string: \<^verbatim>\<open>undefined\<close> and the empty string are
  falsy.
\<close>

definition truthy :: "string option \<Rightarrow> bool" where
  "truthy x = (case x of None \<Rightarrow> False | Some v \<Rightarrow> v \<noteq> [])"

text \<open>
  \<^verbatim>\<open>repo.save(entity)\<close> for an entity that carries its primary key: the row with that
  key is replaced, and the entity is inserted when no row has the key.
\<close>

definition save_by :: "('a \<Rightarrow> uuid) \<Rightarrow> 'a \<Rightarrow> 'a list \<Rightarrow> 'a list" where
  "save_by key x xs =
     (if key x \<in> set (map key xs) then map (\<lambda>y. if key y = key x then x else y) xs
      else xs @ [x])"

definition enqueueLog :: "AuditAction \<Rightarrow> uuid option \<Rightarrow> store \<Rightarrow> store" where
  "enqueueLog action userId s = s\<lparr>audit := audit s @ [(action, userId)]\<rparr>"

definition sendVerificationEmail :: "env \<Rightarrow> string \<Rightarrow> string \<Rightarrow> store \<Rightarrow> store option" where
  "sendVerificationEmail e email token s =
     (if mail_fails e then None
      else Some (s\<lparr>outbox := outbox s @ [VerificationEmail email token]\<rparr>))"

definition sendPasswordResetEmail :: "env \<Rightarrow> string \<Rightarrow> string \<Rightarrow> store \<Rightarrow> store option" where
  "sendPasswordResetEmail e email token s =
     (if mail_fails e then None
      else Some (s\<lparr>outbox := outbox s @ [PasswordResetEmail email token]\<rparr>))"

section \<open>UsersService\<close>

text \<open>
  \<^verbatim>\<open>userRepository.findOne({ where: { email } })\<close> and
  \<^verbatim>\<open>userRepository.findOne({ where: { id } })\<close>. The entity has a
  \<^verbatim>\<open>@DeleteDateColumn\<close>, so the repository's find methods leave soft-deleted rows out;
  the same holds for a row loaded as the \<^verbatim>\<open>user\<close> relation of a token
  (\<^verbatim>\<open>relations: ['user']\<close>), which is \<^verbatim>\<open>null\<close> when the user is soft-deleted.
\<close>

definition findByEmail :: "store \<Rightarrow> string \<Rightarrow> User option" where
  "findByEmail s email = find (\<lambda>u. u_email u = email \<and> u_deleted_at u = None) (users s)"

definition findOneById :: "store \<Rightarrow> uuid \<Rightarrow> User option" where
  "findOneById s userId = find (\<lambda>u. u_id u = userId \<and> u_deleted_at u = None) (users s)"

text \<open>
  The \<^verbatim>\<open>email\<close> column is declared \<^verbatim>\<open>unique\<close>: the store rejects a write that
  would give a second row, soft-deleted rows included, an email that a row already holds.
\<close>

definition email_held :: "store \<Rightarrow> string \<Rightarrow> bool" where
  "email_held s email = (email \<in> set (map u_email (users s)))"

definition new_user :: "uuid \<Rightarrow> string \<Rightarrow> string \<Rightarrow> string option \<Rightarrow> bool option \<Rightarrow> User" where
  "new_user i email password_hash full_name is_email_verified =
     \<lparr>u_id = i, u_email = email, u_password_hash = password_hash, u_full_name = full_name,
      u_phone = None, u_avatar_url = None,
      u_is_email_verified = (case is_email_verified of None \<Rightarrow> False | Some b \<Rightarrow> b),
      u_role = CUSTOMER, u_disabled = False, u_deleted_at = None\<rparr>"

definition createUser ::
  "env \<Rightarrow> string \<Rightarrow> string \<Rightarrow> string option \<Rightarrow> bool option \<Rightarrow> store \<Rightarrow> (exn + User) \<times> store" where
  "createUser e email password_hash full_name is_email_verified s =
     (case findByEmail s email of
        Some existing \<Rightarrow> (Inl (ConflictException ''Email already exists''), s)
      | None \<Rightarrow>
          if user_save_fails e \<or> email_held s email
          then (Inl (InternalServerErrorException ''Failed to create user''), s)
          else (Inr (new_user (next_id s) email password_hash full_name is_email_verified),
                s\<lparr>users := users s @
                            [new_user (next_id s) email password_hash full_name is_email_verified],
                  next_id := Suc (next_id s)\<rparr>))"

definition updatePassword :: "env \<Rightarrow> uuid \<Rightarrow> string \<Rightarrow> store \<Rightarrow> exn + store" where
  "updatePassword e userId newPasswordHash s =
     (if password_update_fails e
      then Inl (InternalServerErrorException ''Failed to update password'')
      else Inr (s\<lparr>users :=
                    map (\<lambda>u. if u_id u = userId then u\<lparr>u_password_hash := newPasswordHash\<rparr> else u)
                      (users s)\<rparr>))"

text \<open>
  \<^verbatim>\<open>updateUser\<close>: the edits of the loaded row, the list of changed fields, and the
  call. The password checks come after the edits and before the one \<^verbatim>\<open>save\<close>, so a
  rejected call writes nothing; the \<^verbatim>\<open>save\<close> is not wrapped, and the store rejects it
  when the new email is held by a row.
\<close>

definition email_changes :: "UpdateUserDto \<Rightarrow> User \<Rightarrow> bool" where
  "email_changes dto user = (truthy (dto_email dto) \<and> dto_email dto \<noteq> Some (u_email user))"

definition edit_profile :: "UpdateUserDto \<Rightarrow> User \<Rightarrow> User" where
  "edit_profile dto user =
     user\<lparr>u_full_name :=
            (if truthy (dto_full_name dto) \<and> dto_full_name dto \<noteq> u_full_name user
             then dto_full_name dto else u_full_name user),
          u_phone :=
            (if truthy (dto_phone dto) \<and> dto_phone dto \<noteq> u_phone user
             then dto_phone dto else u_phone user),
          u_avatar_url :=
            (if truthy (dto_avatar_url dto) \<and> dto_avatar_url dto \<noteq> u_avatar_url user
             then dto_avatar_url dto else u_avatar_url user),
          u_email :=
            (if email_changes dto user
             then (case dto_email dto of None \<Rightarrow> u_email user | Some v \<Rightarrow> v) else u_email user),
          u_is_email_verified := (if email_changes dto user then False else u_is_email_verified user)\<rparr>"

definition set_password :: "platform \<Rightarrow> UpdateUserDto \<Rightarrow> User \<Rightarrow> User" where
  "set_password K dto user =
     (case dto_new_password dto of
        None \<Rightarrow> user
      | Some v \<Rightarrow> if v = [] then user else user\<lparr>u_password_hash := bcrypt_hash K v 10\<rparr>)"

definition changedFields :: "UpdateUserDto \<Rightarrow> User \<Rightarrow> string list" where
  "changedFields dto user =
     (if truthy (dto_full_name dto) \<and> dto_full_name dto \<noteq> u_full_name user
      then [''full_name''] else [])
     @ (if truthy (dto_phone dto) \<and> dto_phone dto \<noteq> u_phone user then [''phone''] else [])
     @ (if truthy (dto_avatar_url dto) \<and> dto_avatar_url dto \<noteq> u_avatar_url user
        then [''avatar_url''] else [])
     @ (if email_changes dto user then [''email''] else [])
     @ (if truthy (dto_new_password dto) then [''password''] else [])"

definition toDto :: "User \<Rightarrow> UserResponseDto" where
  "toDto user =
     \<lparr>res_id = u_id user, res_email = u_email user, res_full_name = u_full_name user,
      res_phone = u_phone user, res_avatar_url = u_avatar_url user,
      res_is_email_verified = u_is_email_verified user, res_role = u_role user,
      res_disabled = u_disabled user\<rparr>"

definition save_profile :: "UpdateUserDto \<Rightarrow> User \<Rightarrow> User \<Rightarrow> store \<Rightarrow> store" where
  "save_profile dto user edited s =
     (if changedFields dto user = [] then s\<lparr>users := save_by u_id edited (users s)\<rparr>
      else enqueueLog UPDATE_PROFILE (Some (u_id user))
             (s\<lparr>users := save_by u_id edited (users s)\<rparr>))"

definition updateUser ::
  "platform \<Rightarrow> uuid \<Rightarrow> UpdateUserDto \<Rightarrow> string \<Rightarrow> string \<Rightarrow> store \<Rightarrow> (exn + response) \<times> store" where
  "updateUser K userId dto ip userAgent s =
     (case findOneById s userId of
        None \<Rightarrow> (Inl (NotFoundException ''User not found''), s)
      | Some user \<Rightarrow>
          if truthy (dto_new_password dto) \<and> \<not> truthy (dto_old_password dto)
          then (Inl (BadRequestException ''Old password is required''), s)
          else if truthy (dto_new_password dto)
                  \<and> \<not> bcrypt_compare K (case dto_old_password dto of None \<Rightarrow> [] | Some v \<Rightarrow> v)
                         (u_password_hash user)
          then (Inl (BadRequestException ''Old password is incorrect''), s)
          else if email_changes dto user \<and> email_held s (u_email (edit_profile dto user))
          then (Inl QueryFailedError, s)
          else (Inr (Profile (toDto (set_password K dto (edit_profile dto user)))),
                save_profile dto user (set_password K dto (edit_profile dto user)) s))"

text \<open>\<^verbatim>\<open>deleteUser\<close>: \<^verbatim>\<open>softDelete\<close> stamps \<^verbatim>\<open>deleted_at\<close> and keeps the row.\<close>

definition deleteUser ::
  "env \<Rightarrow> uuid \<Rightarrow> string \<Rightarrow> string \<Rightarrow> store \<Rightarrow> (exn + response) \<times> store" where
  "deleteUser e userId ip userAgent s =
     (case findOneById s userId of
        None \<Rightarrow> (Inl (NotFoundException ''User not found''), s)
      | Some user \<Rightarrow>
          if u_role user = ADMIN
          then (Inl (ForbiddenException ''Admins cannot delete their account''), s)
          else (Inr Void,
                enqueueLog USER_DELETED (Some userId)
                  (s\<lparr>users := map (\<lambda>u. if u_id u = userId then u\<lparr>u_deleted_at := Some (now e)\<rparr>
                                       else u) (users s)\<rparr>)))"

section \<open>AuthService\<close>

subsection \<open>register and verifyEmail\<close>

text \<open>The two writes of \<^verbatim>\<open>register\<close>: the existing row refreshed, or a new row.\<close>

definition refresh_pre_reg ::
  "platform \<Rightarrow> env \<Rightarrow> PreRegistration \<Rightarrow> string \<Rightarrow> string option \<Rightarrow> string \<Rightarrow> string \<Rightarrow> store \<Rightarrow> store" where
  "refresh_pre_reg K e preReg password full_name ip user_agent s =
     s\<lparr>pre_regs := save_by pr_id
          (preReg\<lparr>pr_password_hash := bcrypt_hash K password 12,
             pr_full_name := Some (case full_name of None \<Rightarrow> [] | Some n \<Rightarrow> n),
             pr_verification_token_hash := sha256 K (random_token e),
             pr_expires_at := now e + 60 * 60 * 1000,
             pr_ip := ip, pr_user_agent := user_agent\<rparr>) (pre_regs s)\<rparr>"

definition create_pre_reg ::
  "platform \<Rightarrow> env \<Rightarrow> string \<Rightarrow> string \<Rightarrow> string option \<Rightarrow> string \<Rightarrow> string \<Rightarrow> store \<Rightarrow> store" where
  "create_pre_reg K e email password full_name ip user_agent s =
     s\<lparr>pre_regs := pre_regs s @
          [\<lparr>pr_id = next_id s, pr_email = toLowerCase K email,
            pr_password_hash = bcrypt_hash K password 12, pr_full_name = full_name,
            pr_verification_token_hash = sha256 K (random_token e),
            pr_expires_at = now e + 60 * 60 * 1000,
            pr_ip = ip, pr_user_agent = user_agent\<rparr>],
       next_id := Suc (next_id s)\<rparr>"

definition register ::
  "platform \<Rightarrow> env \<Rightarrow> string \<Rightarrow> string \<Rightarrow> string option \<Rightarrow> string \<Rightarrow> string \<Rightarrow> store
     \<Rightarrow> (exn + response) \<times> store" where
  "register K e email password full_name ip user_agent s =
     (case findByEmail s (toLowerCase K email) of
        Some existingUser \<Rightarrow> (Inl (ConflictException ''Email already in use''), s)
      | None \<Rightarrow>
         (case find (\<lambda>p. pr_email p = toLowerCase K email) (pre_regs s) of
            Some preReg \<Rightarrow>
              (case sendVerificationEmail e email (random_token e)
                      (refresh_pre_reg K e preReg password full_name ip user_agent s) of
                 None \<Rightarrow>
                   (Inl (InternalServerErrorException
                           ''Failed to send verification email. Please try again later.''),
                    refresh_pre_reg K e preReg password full_name ip user_agent s)
               | Some s2 \<Rightarrow>
                   (Inr (Message ''Verification email resent. Please check your inbox.''), s2))
          | None \<Rightarrow>
              (case sendVerificationEmail e email (random_token e)
                      (create_pre_reg K e email password full_name ip user_agent s) of
                 None \<Rightarrow>
                   (Inl (InternalServerErrorException
                           ''Failed to send verification email. Please try again later.''),
                    enqueueLog EMAIL_SEND_FAILED None
                      (create_pre_reg K e email password full_name ip user_agent s))
               | Some s2 \<Rightarrow>
                   (Inr (Message ''Verification email sent''),
                    enqueueLog REGISTER_REQUEST None s2))))"

definition verifyEmail :: "platform \<Rightarrow> env \<Rightarrow> string \<Rightarrow> store \<Rightarrow> (exn + response) \<times> store" where
  "verifyEmail K e token s =
     (case find (\<lambda>p. pr_verification_token_hash p = sha256 K token) (pre_regs s) of
        None \<Rightarrow> (Inl (ConflictException ''Invalid or expired token''), s)
      | Some preReg \<Rightarrow>
          if pr_expires_at preReg < now e then (Inl (ConflictException ''Token expired''), s)
          else
            (case createUser e (pr_email preReg) (pr_password_hash preReg) (pr_full_name preReg)
                    (Some True) s of
               (Inl err, s1) \<Rightarrow> (Inl err, s1)
             | (Inr user, s1) \<Rightarrow>
                 (Inr (Verified ''Email successfully verified''),
                  enqueueLog EMAIL_VERIFIED (Some (u_id user))
                    (s1\<lparr>pre_regs := filter (\<lambda>p. pr_id p \<noteq> pr_id preReg) (pre_regs s1)\<rparr>))))"

subsection \<open>login and token minting\<close>

definition generateTokens ::
  "platform \<Rightarrow> env \<Rightarrow> uuid \<Rightarrow> UserRole \<Rightarrow> string \<Rightarrow> string \<Rightarrow> string \<Rightarrow> store \<Rightarrow> token_pair \<times> store" where
  "generateTokens K e userId role device_id ip user_agent s =
     (\<lparr>accessToken = (userId, [role], device_id), refreshToken = random_token e,
       expiresIn = 900\<rparr>,
      s\<lparr>refresh_tokens := refresh_tokens s @
           [\<lparr>rt_id = next_id s, rt_user = userId, rt_token_hash = sha256 K (random_token e),
             rt_device_id = device_id, rt_ip = ip, rt_user_agent = user_agent,
             rt_last_seen_at = None, rt_expires_at = now e + 7 * 24 * 60 * 60 * 1000,
             rt_is_revoked = False\<rparr>],
        next_id := Suc (next_id s)\<rparr>)"

definition login ::
  "platform \<Rightarrow> env \<Rightarrow> string \<Rightarrow> string \<Rightarrow> string \<Rightarrow> string \<Rightarrow> string \<Rightarrow> store
     \<Rightarrow> (exn + response) \<times> store" where
  "login K e email password device_id ip user_agent s =
     (case findByEmail s (toLowerCase K email) of
        None \<Rightarrow> (Inl (UnauthorizedException ''Invalid credentials''), s)
      | Some user \<Rightarrow>
          if \<not> u_is_email_verified user
          then (Inl (UnauthorizedException ''Email not verified''), s)
          else if \<not> bcrypt_compare K password (u_password_hash user)
          then (Inl (UnauthorizedException ''Invalid credentials''), enqueueLog LOGIN_FAILED None s)
          else
            (case generateTokens K e (u_id user) (u_role user) device_id ip user_agent
                    (enqueueLog LOGIN_SUCCESS (Some (u_id user)) s) of
               (tokens, s1) \<Rightarrow> (Inr (Tokens tokens), s1)))"

subsection \<open>refreshTokens, logout, logoutAll\<close>

text \<open>
  \<^verbatim>\<open>refreshTokens\<close> in its two parts: everything up to the first store write (the
  \<^verbatim>\<open>findOne\<close>, which also loads the \<^verbatim>\<open>user\<close> relation, and the checks on the row it
  returned), and everything from the write on. Between the two the source awaits the store,
  so another request can run there. When the relation is \<^verbatim>\<open>null\<close>, reading
  \<^verbatim>\<open>storedToken.user.id\<close> throws after the revocation has been saved.
\<close>

definition refresh_lookup ::
  "platform \<Rightarrow> env \<Rightarrow> string \<Rightarrow> string \<Rightarrow> store \<Rightarrow> exn + RefreshToken \<times> User option" where
  "refresh_lookup K e refreshTokenPlain device_id s =
     (case find (\<lambda>t. rt_token_hash t = sha256 K refreshTokenPlain \<and> rt_device_id t = device_id
                      \<and> \<not> rt_is_revoked t) (refresh_tokens s) of
        None \<Rightarrow> Inl (UnauthorizedException ''Invalid or revoked refresh token'')
      | Some storedToken \<Rightarrow>
          if rt_expires_at storedToken < now e
          then Inl (UnauthorizedException ''Refresh token expired'')
          else if (case rt_last_seen_at storedToken of None \<Rightarrow> False
                   | Some seen \<Rightarrow> now e - seen < 10 * 1000)
          then Inl (BadRequestException ''Refresh requested too soon'')
          else Inr (storedToken, findOneById s (rt_user storedToken)))"

definition revoke_stored :: "env \<Rightarrow> RefreshToken \<Rightarrow> store \<Rightarrow> store" where
  "revoke_stored e storedToken s =
     s\<lparr>refresh_tokens := save_by rt_id
          (storedToken\<lparr>rt_is_revoked := True, rt_last_seen_at := Some (now e)\<rparr>)
          (refresh_tokens s)\<rparr>"

definition refresh_rotate ::
  "platform \<Rightarrow> env \<Rightarrow> string \<Rightarrow> RefreshToken \<times> User option \<Rightarrow> store \<Rightarrow> (exn + response) \<times> store" where
  "refresh_rotate K e device_id stored s =
     (case stored of
        (storedToken, None) \<Rightarrow> (Inl TypeError, revoke_stored e storedToken s)
      | (storedToken, Some user) \<Rightarrow>
          (case generateTokens K e (u_id user) (u_role user) device_id (rt_ip storedToken)
                  (rt_user_agent storedToken)
                  (enqueueLog REFRESH (Some (u_id user)) (revoke_stored e storedToken s)) of
             (newTokens, s1) \<Rightarrow> (Inr (Refreshed ''Tokens refreshed successfully'' newTokens), s1)))"

definition refreshTokens ::
  "platform \<Rightarrow> env \<Rightarrow> string \<Rightarrow> string \<Rightarrow> store \<Rightarrow> (exn + response) \<times> store" where
  "refreshTokens K e refreshTokenPlain device_id s =
     (case refresh_lookup K e refreshTokenPlain device_id s of
        Inl err \<Rightarrow> (Inl err, s)
      | Inr stored \<Rightarrow> refresh_rotate K e device_id stored s)"

definition logout :: "platform \<Rightarrow> string \<Rightarrow> store \<Rightarrow> (exn + response) \<times> store" where
  "logout K refreshTokenPlain s =
     (case find (\<lambda>t. rt_token_hash t = sha256 K refreshTokenPlain) (refresh_tokens s) of
        None \<Rightarrow> (Inl (NotFoundException ''Refresh token not found''), s)
      | Some token \<Rightarrow>
          (Inr (Message ''Logged out successfully''),
           enqueueLog LOGOUT (Some (rt_id token))
             (s\<lparr>refresh_tokens := save_by rt_id (token\<lparr>rt_is_revoked := True\<rparr>)
                  (refresh_tokens s)\<rparr>)))"

definition logoutAll :: "env \<Rightarrow> uuid \<Rightarrow> store \<Rightarrow> (exn + response) \<times> store" where
  "logoutAll e userId s =
     (if revoke_all_fails e then (Inl QueryFailedError, s)
      else
        (Inr (Message ''All sessions revoked''),
         enqueueLog TOKEN_REVOKED (Some userId)
           (s\<lparr>refresh_tokens :=
                map (\<lambda>t. if rt_user t = userId then t\<lparr>rt_is_revoked := True\<rparr> else t)
                  (refresh_tokens s)\<rparr>)))"

subsection \<open>Password reset\<close>

definition frontendMessage :: string where
  "frontendMessage =
     ''If an account with that email exists, a password reset link was sent. Please check your email.''"

text \<open>
  The two store writes of \<^verbatim>\<open>requestPasswordReset\<close>: the update that marks the
  user's tokens used, whose failure the source logs and ignores, and the new row. The call is
  the lookup, the update, and then everything from the new row on; the source awaits the store
  between them.
\<close>

definition invalidate_previous :: "env \<Rightarrow> uuid \<Rightarrow> store \<Rightarrow> store" where
  "invalidate_previous e userId s =
     (if invalidate_fails e then s
      else s\<lparr>reset_tokens :=
               map (\<lambda>t. if prt_user_id t = userId then t\<lparr>prt_used := True\<rparr> else t)
                 (reset_tokens s)\<rparr>)"

definition save_reset_token :: "platform \<Rightarrow> env \<Rightarrow> uuid \<Rightarrow> store \<Rightarrow> store" where
  "save_reset_token K e userId s =
     s\<lparr>reset_tokens := reset_tokens s @
          [\<lparr>prt_id = next_id s, prt_token_hash = sha256 K (random_token e),
            prt_user_id = userId, prt_expires_at = now e + 15 * 60 * 1000,
            prt_used = False\<rparr>],
       next_id := Suc (next_id s)\<rparr>"

definition issue_reset_token ::
  "platform \<Rightarrow> env \<Rightarrow> User \<Rightarrow> store \<Rightarrow> (exn + response) \<times> store" where
  "issue_reset_token K e user s =
     (if reset_token_save_fails e
      then (Inl (InternalServerErrorException
                   ''Failed to generate reset token. Please try again later.''), s)
      else
        (case sendPasswordResetEmail e (u_email user) (random_token e)
                (save_reset_token K e (u_id user) s) of
           None \<Rightarrow> (Inr (Message frontendMessage), save_reset_token K e (u_id user) s)
         | Some s2 \<Rightarrow>
             (Inr (Message frontendMessage),
              enqueueLog PASSWORD_RESET_REQUEST (Some (u_id user)) s2)))"

definition requestPasswordReset ::
  "platform \<Rightarrow> env \<Rightarrow> string \<Rightarrow> store \<Rightarrow> (exn + response) \<times> store" where
  "requestPasswordReset K e email s =
     (case findByEmail s (toLowerCase K email) of
        None \<Rightarrow> (Inr (Message frontendMessage), s)
      | Some user \<Rightarrow>
          if \<not> u_is_email_verified user then (Inr (Message frontendMessage), s)
          else issue_reset_token K e user (invalidate_previous e (u_id user) s))"

definition verifyResetToken ::
  "platform \<Rightarrow> env \<Rightarrow> string \<Rightarrow> store \<Rightarrow> (exn + response) \<times> store" where
  "verifyResetToken K e tokenPlain s =
     (case find (\<lambda>t. prt_token_hash t = sha256 K tokenPlain) (reset_tokens s) of
        None \<Rightarrow>
          (Inl (UnauthorizedException ''This reset link is invalid or has already been used.''), s)
      | Some stored \<Rightarrow>
          if prt_used stored
          then (Inl (UnauthorizedException
                       ''This reset link is invalid or has already been used.''), s)
          else if prt_expires_at stored < now e
          then (Inl (UnauthorizedException
                       ''This reset link has expired. Please request a new one.''), s)
          else
            (case findOneById s (prt_user_id stored) of
               None \<Rightarrow> (Inl TypeError, s)
             | Some user \<Rightarrow> (Inr (ResetTokenValid (u_email user)), s)))"

text \<open>
  The two writes of \<^verbatim>\<open>resetPassword\<close> whose failure the source logs and ignores:
  saving the token with \<^verbatim>\<open>used = true\<close>, and \<^verbatim>\<open>logoutAll\<close>.
\<close>

definition mark_used :: "env \<Rightarrow> PasswordResetToken \<Rightarrow> store \<Rightarrow> store" where
  "mark_used e stored s =
     (if mark_used_fails e then s
      else s\<lparr>reset_tokens := save_by prt_id (stored\<lparr>prt_used := True\<rparr>) (reset_tokens s)\<rparr>)"

definition try_logoutAll :: "env \<Rightarrow> uuid \<Rightarrow> store \<Rightarrow> store" where
  "try_logoutAll e userId s =
     (case logoutAll e userId s of (Inl err, s1) \<Rightarrow> s | (Inr ok, s1) \<Rightarrow> s1)"

definition resetPasswordMessage :: string where
  "resetPasswordMessage =
     ''Your password has been reset successfully. Please log in with your new password.''"

definition resetPassword ::
  "platform \<Rightarrow> env \<Rightarrow> string \<Rightarrow> string \<Rightarrow> store \<Rightarrow> (exn + response) \<times> store" where
  "resetPassword K e tokenPlain newPassword s =
     (case find (\<lambda>t. prt_token_hash t = sha256 K tokenPlain) (reset_tokens s) of
        None \<Rightarrow>
          (Inl (UnauthorizedException ''This reset link is invalid or has already been used.''), s)
      | Some stored \<Rightarrow>
          if prt_used stored
          then (Inl (UnauthorizedException
                       ''This reset link is invalid or has already been used.''), s)
          else if prt_expires_at stored < now e
          then (Inl (UnauthorizedException
                       ''This reset link has expired. Please request a new one.''), s)
          else
            (case findOneById s (prt_user_id stored) of
               None \<Rightarrow>
                 (Inl (InternalServerErrorException
                         ''Failed to reset password. Please try again later.''), s)
             | Some user \<Rightarrow>
                 (case updatePassword e (u_id user) (bcrypt_hash K newPassword 12) s of
                    Inl err \<Rightarrow>
                      (Inl (InternalServerErrorException
                              ''Failed to reset password. Please try again later.''), s)
                  | Inr s1 \<Rightarrow>
                      (Inr (Message resetPasswordMessage),
                       enqueueLog PASSWORD_RESET_COMPLETED (Some (u_id user))
                         (try_logoutAll e (u_id user) (mark_used e stored s1))))))"

section \<open>Sequences of calls\<close>

text \<open>
  The calls on the four tables: the nine of \<^verbatim>\<open>AuthService\<close>, and
  \<^verbatim>\<open>updateUser\<close> and \<^verbatim>\<open>deleteUser\<close> of \<^verbatim>\<open>UsersService\<close>
  (\<^verbatim>\<open>PATCH\<close> and \<^verbatim>\<open>DELETE /users/me\<close>). A sequence runs them one after another,
  each call to its end before the next begins.
\<close>

datatype action =
  Register string string "string option" string string
| VerifyEmail string
| Login string string string string string
| RefreshTokens string string
| Logout string
| LogoutAll uuid
| RequestPasswordReset string
| VerifyResetToken string
| ResetPassword string string
| UpdateUser uuid UpdateUserDto string string
| DeleteUser uuid string string

fun exec :: "platform \<Rightarrow> env \<Rightarrow> action \<Rightarrow> store \<Rightarrow> (exn + response) \<times> store" where
  "exec K e (Register email password full_name ip ua) s = register K e email password full_name ip ua s"
| "exec K e (VerifyEmail token) s = verifyEmail K e token s"
| "exec K e (Login email password device_id ip ua) s = login K e email password device_id ip ua s"
| "exec K e (RefreshTokens token device_id) s = refreshTokens K e token device_id s"
| "exec K e (Logout token) s = logout K token s"
| "exec K e (LogoutAll userId) s = logoutAll e userId s"
| "exec K e (RequestPasswordReset email) s = requestPasswordReset K e email s"
| "exec K e (VerifyResetToken token) s = verifyResetToken K e token s"
| "exec K e (ResetPassword token newPassword) s = resetPassword K e token newPassword s"
| "exec K e (UpdateUser userId dto ip ua) s = updateUser K userId dto ip ua s"
| "exec K e (DeleteUser userId ip ua) s = deleteUser e userId ip ua s"

text \<open>
  The tokens come from \<^verbatim>\<open>randomBytes\<close>: a call that mints a token draws one whose
  digest no row of the table it goes to holds yet.
\<close>

fun fresh :: "platform \<Rightarrow> env \<Rightarrow> action \<Rightarrow> store \<Rightarrow> bool" where
  "fresh K e (Register email password full_name ip ua) s =
     (sha256 K (random_token e) \<notin> set (map pr_verification_token_hash (pre_regs s)))"
| "fresh K e (Login email password device_id ip ua) s =
     (sha256 K (random_token e) \<notin> set (map rt_token_hash (refresh_tokens s)))"
| "fresh K e (RefreshTokens token device_id) s =
     (sha256 K (random_token e) \<notin> set (map rt_token_hash (refresh_tokens s)))"
| "fresh K e (RequestPasswordReset email) s =
     (sha256 K (random_token e) \<notin> set (map prt_token_hash (reset_tokens s)))"
| "fresh K e a s = True"

fun run :: "platform \<Rightarrow> (env \<times> action) list \<Rightarrow> store \<Rightarrow> store" where
  "run K [] s = s"
| "run K ((e, a) # tr) s = run K tr (snd (exec K e a s))"

fun fresh_run :: "platform \<Rightarrow> (env \<times> action) list \<Rightarrow> store \<Rightarrow> bool" where
  "fresh_run K [] s = True"
| "fresh_run K ((e, a) # tr) s = (fresh K e a s \<and> fresh_run K tr (snd (exec K e a s)))"

section \<open>Predicates on results and stores\<close>

fun is_Unauthorized :: "exn + 'a \<Rightarrow> bool" where
  "is_Unauthorized (Inl (UnauthorizedException m)) = True"
| "is_Unauthorized r = False"

text \<open>
  The refresh-token table is well formed: primary keys are distinct and below the counter, and
  no two rows hold the same digest.
\<close>

definition rt_inv :: "store \<Rightarrow> bool" where
  "rt_inv s = (distinct (map rt_id (refresh_tokens s))
     \<and> (\<forall>t\<in>set (refresh_tokens s). rt_id t < next_id s)
     \<and> distinct (map rt_token_hash (refresh_tokens s)))"

text \<open>
  A row is unusable for rotation when it is revoked or, with a time limit given, expired before
  that limit; a digest is retired when the table holds it and every row holding it is unusable.
\<close>

definition unusable :: "time option \<Rightarrow> RefreshToken \<Rightarrow> bool" where
  "unusable limit t =
     (rt_is_revoked t \<or> (case limit of None \<Rightarrow> False | Some t0 \<Rightarrow> rt_expires_at t < t0))"

definition retired :: "time option \<Rightarrow> string \<Rightarrow> store \<Rightarrow> bool" where
  "retired limit h s = (h \<in> set (map rt_token_hash (refresh_tokens s))
     \<and> (\<forall>t\<in>set (refresh_tokens s). rt_token_hash t = h \<longrightarrow> unusable limit t))"

text \<open>
  Two requests A and B that present the same token, in the order the awaits of the source
  allow: A's \<^verbatim>\<open>findOne\<close> and checks, B's \<^verbatim>\<open>findOne\<close> and checks, A's writes, B's writes.
\<close>

definition refresh_interleaved ::
  "platform \<Rightarrow> env \<Rightarrow> env \<Rightarrow> string \<Rightarrow> string \<Rightarrow> store
     \<Rightarrow> ((exn + response) \<times> (exn + response)) \<times> store" where
  "refresh_interleaved K eA eB token device_id s =
     (case refresh_lookup K eA token device_id s of
        Inl errA \<Rightarrow>
          (case refreshTokens K eB token device_id s of (rB, s1) \<Rightarrow> ((Inl errA, rB), s1))
      | Inr storedA \<Rightarrow>
          (case refresh_lookup K eB token device_id s of
             Inl errB \<Rightarrow>
               (case refresh_rotate K eA device_id storedA s of (rA, s1) \<Rightarrow> ((rA, Inl errB), s1))
           | Inr storedB \<Rightarrow>
               (case refresh_rotate K eA device_id storedA s of
                  (rA, s1) \<Rightarrow>
                    (case refresh_rotate K eB device_id storedB s1 of
                       (rB, s2) \<Rightarrow> ((rA, rB), s2)))))"

text \<open>Every row that carries a \<^verbatim>\<open>last_seen_at\<close> is revoked.\<close>

definition seen_revoked :: "store \<Rightarrow> bool" where
  "seen_revoked s =
     (\<forall>t\<in>set (refresh_tokens s). rt_last_seen_at t \<noteq> None \<longrightarrow> rt_is_revoked t)"

text \<open>
  A user's password-reset tokens that are not marked used, and those of them that have not
  expired at a given time; a store keeps the single-active-token policy when no user has two
  unused tokens. A step of a trace is free of the invalidation fault when it is not a
  \<^verbatim>\<open>requestPasswordReset\<close> whose update of the earlier tokens throws.
\<close>

definition unused_tokens :: "uuid \<Rightarrow> store \<Rightarrow> PasswordResetToken list" where
  "unused_tokens uid s = filter (\<lambda>r. prt_user_id r = uid \<and> \<not> prt_used r) (reset_tokens s)"

definition usable_tokens :: "time \<Rightarrow> uuid \<Rightarrow> store \<Rightarrow> PasswordResetToken list" where
  "usable_tokens t0 uid s =
     filter (\<lambda>r. prt_user_id r = uid \<and> \<not> prt_used r \<and> \<not> prt_expires_at r < t0) (reset_tokens s)"


definition single_active :: "store \<Rightarrow> bool" where
  "single_active s = (\<forall>uid. length (unused_tokens uid s) \<le> 1)"

text \<open>
  Two \<^verbatim>\<open>requestPasswordReset\<close> calls A and B for the same email, in an order the awaits
  of the source allow: both lookups, A's update, B's update, then A's new row and mail, then
  B's.
\<close>

definition request_reset_interleaved ::
  "platform \<Rightarrow> env \<Rightarrow> env \<Rightarrow> string \<Rightarrow> store
     \<Rightarrow> ((exn + response) \<times> (exn + response)) \<times> store" where
  "request_reset_interleaved K eA eB email s =
     (case findByEmail s (toLowerCase K email) of
        None \<Rightarrow> ((Inr (Message frontendMessage), Inr (Message frontendMessage)), s)
      | Some user \<Rightarrow>
          if \<not> u_is_email_verified user
          then ((Inr (Message frontendMessage), Inr (Message frontendMessage)), s)
          else
            (case issue_reset_token K eA user
                    (invalidate_previous eB (u_id user) (invalidate_previous eA (u_id user) s)) of
               (rA, s1) \<Rightarrow>
                 (case issue_reset_token K eB user s1 of (rB, s2) \<Rightarrow> ((rA, rB), s2))))"

text \<open>
  The pre-registration table is well formed: primary keys are distinct and below the counter,
  and no two rows hold the same token digest or the same email.
\<close>

definition pr_inv :: "store \<Rightarrow> bool" where
  "pr_inv s = (distinct (map pr_id (pre_regs s))
     \<and> (\<forall>p\<in>set (pre_regs s). pr_id p < next_id s)
     \<and> distinct (map pr_verification_token_hash (pre_regs s))
     \<and> distinct (map pr_email (pre_regs s)))"

text \<open>The store after a successful \<^verbatim>\<open>verifyEmail\<close> of the pending row \<open>p\<close>.\<close>

definition verified_store :: "PreRegistration \<Rightarrow> store \<Rightarrow> store" where
  "verified_store p s =
     enqueueLog EMAIL_VERIFIED (Some (next_id s))
       (s\<lparr>users := users s @
             [new_user (next_id s) (pr_email p) (pr_password_hash p) (pr_full_name p) (Some True)],
          next_id := Suc (next_id s),
          pre_regs := removeAll p (pre_regs s)\<rparr>)"

section \<open>Concrete stores and calls\<close>

text \<open>
  A toy instance of the library functions (the digest puts a \<open>#\<close> in front, the password
  hash a \<open>$\<close>, and lowering maps the letters \<open>A\<close> to \<open>Z\<close>, which is what
  \<^verbatim>\<open>toLowerCase\<close> does on the ASCII strings used below), an environment in which
  nothing fails, and small stores.
\<close>

definition lower_char :: "char \<Rightarrow> char" where
  "lower_char c =
     (if 65 \<le> (of_char c :: nat) \<and> (of_char c :: nat) \<le> 90
      then char_of ((of_char c :: nat) + 32) else c)"

definition lower_ascii :: "string \<Rightarrow> string" where
  "lower_ascii = map lower_char"

definition K0 :: platform where
  "K0 = \<lparr>sha256 = (\<lambda>x. CHR ''#'' # x), bcrypt_hash = (\<lambda>x rounds. CHR ''$'' # x),
          bcrypt_compare = (\<lambda>p h. h = CHR ''$'' # p), toLowerCase = lower_ascii\<rparr>"

definition env0 :: "time \<Rightarrow> string \<Rightarrow> env" where
  "env0 t r = \<lparr>now = t, random_token = r, mail_fails = False, user_save_fails = False,
     invalidate_fails = False, reset_token_save_fails = False, password_update_fails = False,
     mark_used_fails = False, revoke_all_fails = False\<rparr>"

definition user_a :: User where
  "user_a = \<lparr>u_id = 1, u_email = ''a@x.com'', u_password_hash = ''$pw12345'',
              u_full_name = Some ''A'', u_phone = None, u_avatar_url = None,
              u_is_email_verified = True, u_role = CUSTOMER, u_disabled = False,
              u_deleted_at = None\<rparr>"

text \<open>The store after register, verifyEmail and login of \<open>a@x.com\<close> on device \<open>d1\<close>.\<close>

definition s_session :: store where
  "s_session =
     \<lparr>users = [user_a], pre_regs = [],
      refresh_tokens = [\<lparr>rt_id = 2, rt_user = 1, rt_token_hash = ''#r1'', rt_device_id = ''d1'',
                          rt_ip = ''ip'', rt_user_agent = ''ua'', rt_last_seen_at = None,
                          rt_expires_at = 604800010, rt_is_revoked = False\<rparr>],
      reset_tokens = [], next_id = 3,
      outbox = [VerificationEmail ''a@x.com'' ''v1''],
      audit = [(REGISTER_REQUEST, None), (EMAIL_VERIFIED, Some 1), (LOGIN_SUCCESS, Some 1)]\<rparr>"

text \<open>A store whose three tokens all expire at time 1000.\<close>

definition p_expiry :: PreRegistration where
  "p_expiry = \<lparr>pr_id = 5, pr_email = ''b@x.com'', pr_password_hash = ''$pw'',
                pr_full_name = None, pr_verification_token_hash = ''#v9'', pr_expires_at = 1000,
                pr_ip = ''ip'', pr_user_agent = ''ua''\<rparr>"

definition t_expiry :: RefreshToken where
  "t_expiry = \<lparr>rt_id = 2, rt_user = 1, rt_token_hash = ''#r1'', rt_device_id = ''d1'',
                rt_ip = ''ip'', rt_user_agent = ''ua'', rt_last_seen_at = None,
                rt_expires_at = 1000, rt_is_revoked = False\<rparr>"

definition r_expiry :: PasswordResetToken where
  "r_expiry = \<lparr>prt_id = 4, prt_token_hash = ''#p1'', prt_user_id = 1, prt_expires_at = 1000,
                prt_used = False\<rparr>"

definition s_expiry :: store where
  "s_expiry = \<lparr>users = [user_a], pre_regs = [p_expiry], refresh_tokens = [t_expiry],
                reset_tokens = [r_expiry], next_id = 6, outbox = [], audit = []\<rparr>"

text \<open>
  The calls that lead to \<open>s_session\<close>, and later calls of the same user: a login on a second
  device, a rotation of the token minted in between, and a logout from all devices.
\<close>

definition tr_session :: "(env \<times> action) list" where
  "tr_session =
     [(env0 0 ''v1'', Register ''a@x.com'' ''pw12345'' (Some ''A'') ''ip'' ''ua''),
      (env0 5 [], VerifyEmail ''v1''),
      (env0 10 ''r1'', Login ''a@x.com'' ''pw12345'' ''d1'' ''ip'' ''ua'')]"

definition tr_later :: "(env \<times> action) list" where
  "tr_later =
     [(env0 1500 ''r7'', Login ''a@x.com'' ''pw12345'' ''d2'' ''ip'' ''ua''),
      (env0 1600 ''r8'', RefreshTokens ''r2'' ''d1''),
      (env0 1700 [], LogoutAll 1)]"

text \<open>
  \<open>s_session\<close> with the account disabled; an environment in which saving the new
  password-reset token fails.
\<close>

definition s_disabled :: store where
  "s_disabled = s_session\<lparr>users := [user_a\<lparr>u_disabled := True\<rparr>]\<rparr>"

definition env_save_fails :: env where
  "env_save_fails = (env0 20 ''p1'')\<lparr>reset_token_save_fails := True\<rparr>"

text \<open>
  \<open>s_session\<close> after a \<^verbatim>\<open>requestPasswordReset\<close> of the user, with its one unused reset
  token; two reset requests in a row, with and without a failing invalidation in the second.
\<close>

definition r_reset :: PasswordResetToken where
  "r_reset = \<lparr>prt_id = 3, prt_token_hash = ''#p1'', prt_user_id = 1, prt_expires_at = 900020,
               prt_used = False\<rparr>"

definition s_reset :: store where
  "s_reset = s_session\<lparr>reset_tokens := [r_reset], next_id := 4,
               outbox := outbox s_session @ [PasswordResetEmail ''a@x.com'' ''p1''],
               audit := audit s_session @ [(PASSWORD_RESET_REQUEST, Some 1)]\<rparr>"

definition tr_two_resets :: "(env \<times> action) list" where
  "tr_two_resets = tr_session @
     [(env0 20 ''p1'', RequestPasswordReset ''a@x.com''),
      ((env0 30 ''p2'')\<lparr>invalidate_fails := True\<rparr>, RequestPasswordReset ''a@x.com'')]"


text \<open>A registration of \<open>a@x.com\<close> and the pending row it creates.\<close>

definition tr_registered :: "(env \<times> action) list" where
  "tr_registered = [(env0 0 ''v1'', Register ''a@x.com'' ''pw12345'' (Some ''A'') ''ip'' ''ua'')]"

definition p_registered :: PreRegistration where
  "p_registered = \<lparr>pr_id = 0, pr_email = ''a@x.com'', pr_password_hash = ''$pw12345'',
                    pr_full_name = Some ''A'', pr_verification_token_hash = ''#v1'',
                    pr_expires_at = 3600000, pr_ip = ''ip'', pr_user_agent = ''ua''\<rparr>"

text \<open>
  After the session of \<open>a@x.com\<close>: a registration of \<open>b@x.com\<close> followed by an
  \<^verbatim>\<open>updateUser\<close> that gives the first user that email; and the deletion of the first
  user's account followed by a new registration of \<open>a@x.com\<close>. Each leaves one pending row.
\<close>

definition dto_email_b :: UpdateUserDto where
  "dto_email_b = \<lparr>dto_full_name = None, dto_phone = None, dto_avatar_url = None,
                   dto_email = Some ''b@x.com'', dto_new_password = None,
                   dto_old_password = None\<rparr>"

definition tr_email_taken :: "(env \<times> action) list" where
  "tr_email_taken = tr_session @
     [(env0 20 ''v2'', Register ''b@x.com'' ''pw22222'' None ''ip'' ''ua''),
      (env0 30 [], UpdateUser 1 dto_email_b ''ip'' ''ua'')]"

definition p_taken :: PreRegistration where
  "p_taken = \<lparr>pr_id = 3, pr_email = ''b@x.com'', pr_password_hash = ''$pw22222'',
               pr_full_name = None, pr_verification_token_hash = ''#v2'',
               pr_expires_at = 3600020, pr_ip = ''ip'', pr_user_agent = ''ua''\<rparr>"

definition s_email_taken :: store where
  "s_email_taken =
     s_session\<lparr>users := [user_a\<lparr>u_email := ''b@x.com'', u_is_email_verified := False\<rparr>],
       pre_regs := [p_taken], next_id := 4,
       outbox := outbox s_session @ [VerificationEmail ''b@x.com'' ''v2''],
       audit := audit s_session @ [(REGISTER_REQUEST, None), (UPDATE_PROFILE, Some 1)]\<rparr>"

definition tr_email_deleted :: "(env \<times> action) list" where
  "tr_email_deleted = tr_session @
     [(env0 20 [], DeleteUser 1 ''ip'' ''ua''),
      (env0 30 ''v2'', Register ''a@x.com'' ''pw22222'' None ''ip'' ''ua'')]"

definition p_deleted :: PreRegistration where
  "p_deleted = \<lparr>pr_id = 3, pr_email = ''a@x.com'', pr_password_hash = ''$pw22222'',
                 pr_full_name = None, pr_verification_token_hash = ''#v2'',
                 pr_expires_at = 3600030, pr_ip = ''ip'', pr_user_agent = ''ua''\<rparr>"

definition s_email_deleted :: store where
  "s_email_deleted =
     s_session\<lparr>users := [user_a\<lparr>u_deleted_at := Some 20\<rparr>],
       pre_regs := [p_deleted], next_id := 4,
       outbox := outbox s_session @ [VerificationEmail ''a@x.com'' ''v2''],
       audit := audit s_session @ [(USER_DELETED, Some 1), (REGISTER_REQUEST, None)]\<rparr>"

section \<open>Facts about the helpers\<close>

lemmas op_defs = register_def verifyEmail_def login_def refreshTokens_def refresh_lookup_def
  refresh_rotate_def revoke_stored_def logout_def logoutAll_def requestPasswordReset_def
  issue_reset_token_def verifyResetToken_def resetPassword_def generateTokens_def createUser_def
  new_user_def updatePassword_def findByEmail_def findOneById_def email_held_def enqueueLog_def
  sendVerificationEmail_def sendPasswordResetEmail_def refresh_pre_reg_def create_pre_reg_def
  invalidate_previous_def save_reset_token_def mark_used_def try_logoutAll_def save_by_def
  lower_ascii_def lower_char_def

lemmas users_op_defs = updateUser_def deleteUser_def edit_profile_def email_changes_def
  set_password_def changedFields_def toDto_def save_profile_def truthy_def

lemmas fixture_defs = K0_def env0_def user_a_def s_session_def p_expiry_def t_expiry_def
  r_expiry_def s_expiry_def init_def

lemmas trace_defs = tr_session_def tr_later_def

lemmas fixture2_defs = r_reset_def s_reset_def tr_two_resets_def

lemmas fixture3_defs = dto_email_b_def p_taken_def s_email_taken_def p_deleted_def
  s_email_deleted_def

text \<open>The concrete stores are reached from the empty store by calls that mint fresh tokens.\<close>

lemma s_session_reached:
  "run K0 tr_session init = s_session" "fresh_run K0 tr_session init"
  by (simp_all add: trace_defs fixture_defs op_defs)

lemma s_reset_reached:
  "run K0 (tr_session @ [(env0 20 ''p1'', RequestPasswordReset ''a@x.com'')]) init = s_reset"
  "fresh_run K0 (tr_session @ [(env0 20 ''p1'', RequestPasswordReset ''a@x.com'')]) init"
  by (simp_all add: trace_defs fixture_defs fixture2_defs op_defs)

lemma email_taken_reached:
  "run K0 tr_email_taken init = s_email_taken" "fresh_run K0 tr_email_taken init"
  by (simp_all add: tr_email_taken_def trace_defs fixture_defs fixture3_defs op_defs users_op_defs)

lemma email_deleted_reached:
  "run K0 tr_email_deleted init = s_email_deleted" "fresh_run K0 tr_email_deleted init"
  by (simp_all add: tr_email_deleted_def trace_defs fixture_defs fixture3_defs op_defs
        users_op_defs)

lemma find_map_same:
  "(\<And>x. P (f x) = P x) \<Longrightarrow> find P (map f xs) = map_option f (find P xs)"
  by (induction xs) auto

lemma find_Some_mem: "find P xs = Some x \<Longrightarrow> x \<in> set xs \<and> P x"
  by (induction xs) (auto split: if_splits)

lemma find_None_set: "(find P xs = None) = (\<forall>x\<in>set xs. \<not> P x)"
  by (induction xs) auto

lemma snd_case_keep [simp]: "snd (case p of (a, b) \<Rightarrow> (f a, b)) = snd p"
  by (cases p) simp

lemma fst_case_keep [simp]: "fst (case p of (a, b) \<Rightarrow> (f a, b)) = f (fst p)"
  by (cases p) simp

lemma save_by_mem:
  "key x \<in> set (map key xs) \<Longrightarrow> save_by key x xs = map (\<lambda>y. if key y = key x then x else y) xs"
  by (simp add: save_by_def)

lemma distinct_key_eq:
  "distinct (map key xs) \<Longrightarrow> x \<in> set xs \<Longrightarrow> y \<in> set xs \<Longrightarrow> key y = key x \<Longrightarrow> y = x"
  by (meson distinct_map inj_on_def)

lemma save_by_update:
  assumes "x \<in> set xs" "distinct (map key xs)" "key x' = key x"
  shows "save_by key x' xs = map (\<lambda>y. if y = x then x' else y) xs"
proof -
  have "key x' \<in> set (map key xs)" using assms(1,3) by force
  then have "save_by key x' xs = map (\<lambda>y. if key y = key x' then x' else y) xs"
    by (rule save_by_mem)
  also have "\<dots> = map (\<lambda>y. if y = x then x' else y) xs"
    using assms by (intro map_cong refl) (auto dest: distinct_key_eq)
  finally show ?thesis .
qed

lemma map_proj_update:
  "h x' = h x \<Longrightarrow> map h (map (\<lambda>y. if y = x then x' else y) xs) = map h xs"
  by (induction xs) auto

lemma run_append: "run K (tr @ tr') s = run K tr' (run K tr s)"
  by (induction tr arbitrary: s) auto

lemma Inr_result: "\<not> isl (fst p) \<Longrightarrow> \<exists>r. p = (Inr r, snd p)"
  by (cases p; cases "fst p") auto

lemma set_save_by: "y \<in> set (save_by key x xs) \<Longrightarrow> y = x \<or> y \<in> set xs"
  by (auto simp: save_by_def split: if_splits)

lemma update_absent: "x \<notin> set xs \<Longrightarrow> map (\<lambda>y. if y = x then x' else y) xs = xs"
  by (induction xs) auto

lemma set_update:
  "z \<in> set (map (\<lambda>y. if y = x then x' else y) xs) \<Longrightarrow> z = x' \<or> z \<in> set xs"
  by (induction xs) (auto split: if_splits)

lemma in_map_obtain: "v \<in> set (map h ys) \<Longrightarrow> \<exists>z\<in>set ys. h z = v"
  by (induction ys) auto

lemma distinct_update_fresh:
  assumes "distinct (map h xs)" "h x' \<notin> set (map h xs)"
  shows "distinct (map h (map (\<lambda>y. if y = x then x' else y) xs))"
  using assms
proof (induction xs)
  case Nil
  then show ?case by simp
next
  case (Cons a xs)
  have rest: "distinct (map h (map (\<lambda>y. if y = x then x' else y) xs))"
    using Cons by simp
  show ?case
  proof (cases "a = x")
    case True
    then have "x \<notin> set xs" using Cons.prems(1) by auto
    then have "map (\<lambda>y. if y = x then x' else y) xs = xs" by (rule update_absent)
    then show ?thesis using True Cons.prems by simp
  next
    case False
    have "h a \<notin> set (map h (map (\<lambda>y. if y = x then x' else y) xs))"
    proof
      assume "h a \<in> set (map h (map (\<lambda>y. if y = x then x' else y) xs))"
      from in_map_obtain[OF this] obtain z
        where z: "z \<in> set (map (\<lambda>y. if y = x then x' else y) xs)" "h z = h a"
        by blast
      from set_update[OF z(1)] show False
      proof
        assume "z = x'"
        with z(2) Cons.prems(2) show False by simp
      next
        assume "z \<in> set xs"
        then have "h a \<in> set (map h xs)" using z(2) by (metis image_eqI list.set_map)
        with Cons.prems(1) show False by simp
      qed
    qed
    then show ?thesis using False rest by simp
  qed
qed

lemma find_unique:
  assumes "distinct (map h xs)" "x \<in> set xs"
  shows "find (\<lambda>y. h y = h x) xs = Some x"
proof (cases "find (\<lambda>y. h y = h x) xs")
  case None
  then show ?thesis using assms(2) by (auto simp: find_None_set)
next
  case (Some y)
  from find_Some_mem[OF Some] have "y \<in> set xs" "h y = h x" by simp_all
  from distinct_key_eq[OF assms(1) assms(2) this] Some show ?thesis by simp
qed

lemma filter_key_removeAll:
  assumes "distinct (map key xs)" "x \<in> set xs"
  shows "filter (\<lambda>q. key q \<noteq> key x) xs = removeAll x xs"
proof -
  have "filter (\<lambda>q. key q \<noteq> key x) xs = filter ((\<noteq>) x) xs"
    using assms by (intro filter_cong refl) (auto dest: distinct_key_eq)
  then show ?thesis by (simp add: removeAll_filter_not_eq)
qed

text \<open>The two calls of \<^verbatim>\<open>UsersService\<close> write the user table and the audit log only.\<close>

lemma updateUser_frame:
  "refresh_tokens (snd (updateUser K userId dto ip ua s)) = refresh_tokens s"
  "reset_tokens (snd (updateUser K userId dto ip ua s)) = reset_tokens s"
  "pre_regs (snd (updateUser K userId dto ip ua s)) = pre_regs s"
  "next_id (snd (updateUser K userId dto ip ua s)) = next_id s"
  by (auto simp: updateUser_def save_profile_def enqueueLog_def split: option.splits)

lemma deleteUser_frame:
  "refresh_tokens (snd (deleteUser e userId ip ua s)) = refresh_tokens s"
  "reset_tokens (snd (deleteUser e userId ip ua s)) = reset_tokens s"
  "pre_regs (snd (deleteUser e userId ip ua s)) = pre_regs s"
  "next_id (snd (deleteUser e userId ip ua s)) = next_id s"
  by (auto simp: deleteUser_def enqueueLog_def split: option.splits)

lemma not_held_findByEmail: "\<not> email_held s em \<Longrightarrow> findByEmail s em = None"
  by (auto simp: email_held_def findByEmail_def find_None_set)

section \<open>Expiry checks\<close>



section \<open>logout\<close>

lemma find_save_by_revoked:
  assumes "find (\<lambda>t. rt_token_hash t = h) xs = Some t"
  shows "find (\<lambda>t. rt_token_hash t = h)
           (map (\<lambda>y. if rt_id y = rt_id t then t\<lparr>rt_is_revoked := True\<rparr> else y) xs)
         = Some (t\<lparr>rt_is_revoked := True\<rparr>)"
  using assms
proof (induction xs)
  case Nil
  then show ?case by simp
next
  case (Cons x xs)
  from find_Some_mem[OF Cons.prems] have ht: "rt_token_hash t = h"
    by simp
  show ?case
  proof (cases "rt_token_hash x = h")
    case True
    with Cons.prems have "x = t" by simp
    then show ?thesis using ht by simp
  next
    case False
    with Cons.prems have "find (\<lambda>t. rt_token_hash t = h) xs = Some t" by simp
    from Cons.IH[OF this] False ht show ?thesis by simp
  qed
qed

text \<open>
  C6, as the code has it. \<^verbatim>\<open>logout\<close> fails with NotFound exactly when no RefreshToken row
  holds the digest of the presented token; revoked rows match as well. When a row matches, the
  call succeeds, the row found for that digest is revoked afterwards, and a second
  \<^verbatim>\<open>logout\<close> with the same raw token succeeds again.
\<close>

theorem logout_not_found_iff:
  "((fst (logout K token s) = Inl (NotFoundException ''Refresh token not found''))
      = (sha256 K token \<notin> set (map rt_token_hash (refresh_tokens s))))
   \<and> (sha256 K token \<in> set (map rt_token_hash (refresh_tokens s)) \<longrightarrow>
        fst (logout K token s) = Inr (Message ''Logged out successfully'')
      \<and> (\<exists>t. find (\<lambda>t. rt_token_hash t = sha256 K token) (refresh_tokens (snd (logout K token s)))
                = Some t \<and> rt_is_revoked t)
      \<and> fst (logout K token (snd (logout K token s))) = Inr (Message ''Logged out successfully''))"
proof -
  let ?P = "\<lambda>t. rt_token_hash t = sha256 K token"
  have none: "(find ?P (refresh_tokens s) = None)
                = (sha256 K token \<notin> set (map rt_token_hash (refresh_tokens s)))"
    by (force simp: find_None_set)
  have first: "(fst (logout K token s) = Inl (NotFoundException ''Refresh token not found''))
                 = (find ?P (refresh_tokens s) = None)"
    by (auto simp: logout_def split: option.splits)
  have rest: "fst (logout K token s) = Inr (Message ''Logged out successfully'')
      \<and> (\<exists>t. find ?P (refresh_tokens (snd (logout K token s))) = Some t \<and> rt_is_revoked t)
      \<and> fst (logout K token (snd (logout K token s))) = Inr (Message ''Logged out successfully'')"
    if "sha256 K token \<in> set (map rt_token_hash (refresh_tokens s))"
  proof -
    from that none obtain t where t: "find ?P (refresh_tokens s) = Some t" by auto
    then have mem: "t \<in> set (refresh_tokens s)" by (auto dest: find_Some_mem)
    have tbl: "refresh_tokens (snd (logout K token s))
                 = map (\<lambda>y. if rt_id y = rt_id t then t\<lparr>rt_is_revoked := True\<rparr> else y)
                     (refresh_tokens s)"
      using t mem by (simp add: logout_def save_by_def enqueueLog_def)
    have f': "find ?P (refresh_tokens (snd (logout K token s)))
                = Some (t\<lparr>rt_is_revoked := True\<rparr>)"
      unfolding tbl by (rule find_save_by_revoked[OF t])
    have r1: "fst (logout K token s) = Inr (Message ''Logged out successfully'')"
      using t by (simp add: logout_def)
    have r2: "fst (logout K token (snd (logout K token s)))
                = Inr (Message ''Logged out successfully'')"
      using f' by (simp add: logout_def[of K token "snd (logout K token s)"])
    from r1 r2 f' show ?thesis by simp
  qed
  show ?thesis
  proof (intro conjI impI)
    show "(fst (logout K token s) = Inl (NotFoundException ''Refresh token not found''))
            = (sha256 K token \<notin> set (map rt_token_hash (refresh_tokens s)))"
      using first none by simp
  qed (use rest in simp_all)
qed

theorem logout_not_found_iff_witness:
  "fst (logout K0 ''r1'' s_session) = Inr (Message ''Logged out successfully'')
   \<and> (\<exists>t. find (\<lambda>t. rt_token_hash t = sha256 K0 ''r1'')
               (refresh_tokens (snd (logout K0 ''r1'' s_session))) = Some t \<and> rt_is_revoked t)
   \<and> fst (logout K0 ''r1'' (snd (logout K0 ''r1'' s_session)))
       = Inr (Message ''Logged out successfully'')
   \<and> fst (logout K0 ''zz'' s_session) = Inl (NotFoundException ''Refresh token not found'')"
proof -
  have h: "sha256 K0 ''r1'' \<in> set (map rt_token_hash (refresh_tokens s_session))"
    by (simp add: fixture_defs)
  have n: "sha256 K0 ''zz'' \<notin> set (map rt_token_hash (refresh_tokens s_session))"
    by (simp add: fixture_defs)
  from logout_not_found_iff[of K0 "''r1''" s_session] h
       logout_not_found_iff[of K0 "''zz''" s_session] n
  show ?thesis by simp
qed

theorem second_logout_counterexample:
  "fst (logout K0 ''r1'' s_session) = Inr (Message ''Logged out successfully'')
   \<and> fst (logout K0 ''r1'' (snd (logout K0 ''r1'' s_session)))
       \<noteq> Inl (NotFoundException ''Refresh token not found'')"
  by (simp add: fixture_defs logout_def save_by_def enqueueLog_def)

section \<open>Refresh-token rotation\<close>

text \<open>The table after a row-wise update that keeps ids and digests.\<close>

lemma rt_inv_map:
  assumes "rt_inv s" "refresh_tokens s' = map f (refresh_tokens s)" "next_id s \<le> next_id s'"
    and "\<And>t. rt_id (f t) = rt_id t" "\<And>t. rt_token_hash (f t) = rt_token_hash t"
  shows "rt_inv s'"
proof -
  have c: "rt_id \<circ> f = rt_id" "rt_token_hash \<circ> f = rt_token_hash"
    using assms(4,5) by (simp_all add: fun_eq_iff)
  have "\<forall>t\<in>set (refresh_tokens s). rt_id t < next_id s'"
    using assms(1,3) by (force simp: rt_inv_def)
  then show ?thesis
    using assms(1) by (simp add: rt_inv_def assms(2,4) c)
qed

lemma retired_map:
  assumes "retired l h s" "refresh_tokens s' = map f (refresh_tokens s)"
    and "\<And>t. rt_token_hash (f t) = rt_token_hash t" "\<And>t. unusable l t \<Longrightarrow> unusable l (f t)"
  shows "retired l h s'"
proof -
  have c: "rt_token_hash \<circ> f = rt_token_hash"
    using assms(3) by (simp add: fun_eq_iff)
  show ?thesis
    using assms(1,4) by (simp add: retired_def assms(2,3) c)
qed

lemma rt_inv_same:
  "rt_inv s \<Longrightarrow> refresh_tokens s' = refresh_tokens s \<Longrightarrow> next_id s \<le> next_id s' \<Longrightarrow> rt_inv s'"
  by (rule rt_inv_map[where f = "\<lambda>t. t"]) simp_all

lemma retired_same: "retired l h s \<Longrightarrow> refresh_tokens s' = refresh_tokens s \<Longrightarrow> retired l h s'"
  by (simp add: retired_def)

lemma revoke_stored_rows:
  assumes "rt_inv s" "t \<in> set (refresh_tokens s)"
  shows "refresh_tokens (revoke_stored e t s)
           = map (\<lambda>y. if y = t then t\<lparr>rt_is_revoked := True, rt_last_seen_at := Some (now e)\<rparr> else y)
               (refresh_tokens s)"
  using assms by (simp add: revoke_stored_def rt_inv_def save_by_update)

lemma rt_inv_revoke_stored:
  assumes "rt_inv s" "t \<in> set (refresh_tokens s)"
  shows "rt_inv (revoke_stored e t s)"
proof (rule rt_inv_map[OF assms(1) revoke_stored_rows[OF assms]])
  show "next_id s \<le> next_id (revoke_stored e t s)"
    by (simp add: revoke_stored_def)
qed auto

lemma retired_revoke_stored:
  assumes "rt_inv s" "t \<in> set (refresh_tokens s)" "retired l h s"
  shows "retired l h (revoke_stored e t s)"
  by (rule retired_map[OF assms(3) revoke_stored_rows[OF assms(1,2)]])
     (auto simp: unusable_def)

lemma rt_inv_generateTokens:
  assumes "rt_inv s" "sha256 K (random_token e) \<notin> set (map rt_token_hash (refresh_tokens s))"
  shows "rt_inv (snd (generateTokens K e uid role dev ip ua s))"
  using assms by (auto simp: rt_inv_def generateTokens_def less_Suc_eq)

lemma retired_generateTokens:
  assumes "retired l h s" "sha256 K (random_token e) \<notin> set (map rt_token_hash (refresh_tokens s))"
  shows "retired l h (snd (generateTokens K e uid role dev ip ua s))"
  using assms by (auto simp: retired_def generateTokens_def)

lemma rt_inv_enqueueLog [simp]: "rt_inv (enqueueLog a u s) = rt_inv s"
  by (simp add: rt_inv_def enqueueLog_def)

lemma retired_enqueueLog [simp]: "retired l h (enqueueLog a u s) = retired l h s"
  by (simp add: retired_def enqueueLog_def)

lemma refresh_tokens_enqueueLog [simp]: "refresh_tokens (enqueueLog a u s) = refresh_tokens s"
  by (simp add: enqueueLog_def)

lemma hashes_revoke_stored:
  "rt_inv s \<Longrightarrow> t \<in> set (refresh_tokens s) \<Longrightarrow>
     map rt_token_hash (refresh_tokens (revoke_stored e t s)) = map rt_token_hash (refresh_tokens s)"
  by (simp add: revoke_stored_rows map_proj_update)

text \<open>Calls that leave the refresh-token table alone.\<close>

lemma register_frame:
  "refresh_tokens (snd (register K e email password full_name ip ua s)) = refresh_tokens s"
  "next_id s \<le> next_id (snd (register K e email password full_name ip ua s))"
  by (auto simp: register_def sendVerificationEmail_def refresh_pre_reg_def create_pre_reg_def
        enqueueLog_def split: option.splits)

lemma verifyEmail_frame:
  "refresh_tokens (snd (verifyEmail K e token s)) = refresh_tokens s"
  "next_id s \<le> next_id (snd (verifyEmail K e token s))"
  by (auto simp: verifyEmail_def createUser_def enqueueLog_def split: option.splits)

lemma requestPasswordReset_frame:
  "refresh_tokens (snd (requestPasswordReset K e email s)) = refresh_tokens s"
  "next_id s \<le> next_id (snd (requestPasswordReset K e email s))"
  by (auto simp: requestPasswordReset_def issue_reset_token_def sendPasswordResetEmail_def save_reset_token_def
        invalidate_previous_def enqueueLog_def split: option.splits)

lemma verifyResetToken_frame:
  "snd (verifyResetToken K e token s) = s"
  by (auto simp: verifyResetToken_def split: option.splits)

text \<open>Calls that write the refresh-token table.\<close>

lemma logoutAll_rows:
  "refresh_tokens (snd (logoutAll e uid s)) =
     map (\<lambda>t. if \<not> revoke_all_fails e \<and> rt_user t = uid then t\<lparr>rt_is_revoked := True\<rparr> else t)
       (refresh_tokens s)"
  "next_id (snd (logoutAll e uid s)) = next_id s"
  by (simp_all add: logoutAll_def enqueueLog_def)

lemma try_logoutAll_rows:
  "refresh_tokens (try_logoutAll e uid s) =
     map (\<lambda>t. if \<not> revoke_all_fails e \<and> rt_user t = uid then t\<lparr>rt_is_revoked := True\<rparr> else t)
       (refresh_tokens s)"
  "next_id (try_logoutAll e uid s) = next_id s"
  by (simp_all add: try_logoutAll_def logoutAll_def enqueueLog_def)

lemma resetPassword_rows:
  "\<exists>uid b. refresh_tokens (snd (resetPassword K e token newPassword s)) =
     map (\<lambda>t. if b \<and> rt_user t = uid then t\<lparr>rt_is_revoked := True\<rparr> else t) (refresh_tokens s)"
  "next_id (snd (resetPassword K e token newPassword s)) = next_id s"
proof -
  have same: "\<exists>uid b. refresh_tokens s =
     map (\<lambda>t. if b \<and> rt_user t = uid then t\<lparr>rt_is_revoked := True\<rparr> else t) (refresh_tokens s)"
    by (rule exI[of _ 0], rule exI[of _ False]) simp
  show "\<exists>uid b. refresh_tokens (snd (resetPassword K e token newPassword s)) =
     map (\<lambda>t. if b \<and> rt_user t = uid then t\<lparr>rt_is_revoked := True\<rparr> else t) (refresh_tokens s)"
    using same
    by (auto simp: resetPassword_def updatePassword_def try_logoutAll_rows mark_used_def
          split: option.splits sum.splits)
  show "next_id (snd (resetPassword K e token newPassword s)) = next_id s"
    by (auto simp: resetPassword_def updatePassword_def try_logoutAll_rows mark_used_def enqueueLog_def
          split: option.splits sum.splits)
qed

lemma logout_rows:
  assumes "rt_inv s"
  shows "\<exists>f. refresh_tokens (snd (logout K token s)) = map f (refresh_tokens s)
           \<and> (\<forall>t. rt_id (f t) = rt_id t \<and> rt_token_hash (f t) = rt_token_hash t
                  \<and> (unusable l t \<longrightarrow> unusable l (f t)))"
    and "next_id (snd (logout K token s)) = next_id s"
proof -
  show "next_id (snd (logout K token s)) = next_id s"
    by (simp add: logout_def enqueueLog_def split: option.splits)
  show "\<exists>f. refresh_tokens (snd (logout K token s)) = map f (refresh_tokens s)
           \<and> (\<forall>t. rt_id (f t) = rt_id t \<and> rt_token_hash (f t) = rt_token_hash t
                  \<and> (unusable l t \<longrightarrow> unusable l (f t)))"
  proof (cases "find (\<lambda>t. rt_token_hash t = sha256 K token) (refresh_tokens s)")
    case None
    then have "refresh_tokens (snd (logout K token s)) = map (\<lambda>t. t) (refresh_tokens s)"
      by (simp add: logout_def)
    then show ?thesis by blast
  next
    case (Some t)
    then have mem: "t \<in> set (refresh_tokens s)" by (auto dest: find_Some_mem)
    have "refresh_tokens (snd (logout K token s))
            = map (\<lambda>y. if y = t then t\<lparr>rt_is_revoked := True\<rparr> else y) (refresh_tokens s)"
      using Some mem assms by (simp add: logout_def rt_inv_def save_by_update)
    moreover have "\<forall>y. rt_id (if y = t then t\<lparr>rt_is_revoked := True\<rparr> else y) = rt_id y
        \<and> rt_token_hash (if y = t then t\<lparr>rt_is_revoked := True\<rparr> else y) = rt_token_hash y
        \<and> (unusable l y \<longrightarrow> unusable l (if y = t then t\<lparr>rt_is_revoked := True\<rparr> else y))"
      by (auto simp: unusable_def)
    ultimately show ?thesis by blast
  qed
qed

lemma refresh_lookup_mem:
  "refresh_lookup K e token dev s = Inr (t, uo) \<Longrightarrow>
     t \<in> set (refresh_tokens s) \<and> rt_token_hash t = sha256 K token \<and> rt_device_id t = dev
     \<and> \<not> rt_is_revoked t \<and> \<not> rt_expires_at t < now e"
  by (auto simp: refresh_lookup_def split: option.splits if_splits dest: find_Some_mem)

lemma login_store:
  "snd (login K e email password dev ip ua s) = s
   \<or> snd (login K e email password dev ip ua s) = enqueueLog LOGIN_FAILED None s
   \<or> (\<exists>u::User. snd (login K e email password dev ip ua s)
            = snd (generateTokens K e (u_id u) (u_role u) dev ip ua
                     (enqueueLog LOGIN_SUCCESS (Some (u_id u)) s)))"
proof (cases "findByEmail s (toLowerCase K email)")
  case None
  then show ?thesis by (simp add: login_def)
next
  case (Some u)
  show ?thesis
  proof (cases "u_is_email_verified u \<and> bcrypt_compare K password (u_password_hash u)")
    case True
    then have "snd (login K e email password dev ip ua s)
                 = snd (generateTokens K e (u_id u) (u_role u) dev ip ua
                          (enqueueLog LOGIN_SUCCESS (Some (u_id u)) s))"
      using Some by (simp add: login_def)
    then show ?thesis by blast
  next
    case False
    then show ?thesis using Some by (auto simp: login_def)
  qed
qed

lemma login_step:
  assumes "sha256 K (random_token e) \<notin> set (map rt_token_hash (refresh_tokens s))"
  shows "rt_inv s \<Longrightarrow> rt_inv (snd (login K e email password dev ip ua s))"
    and "retired l h s \<Longrightarrow> retired l h (snd (login K e email password dev ip ua s))"
proof -
  have g1: "rt_inv (snd (generateTokens K e uid role dev ip ua (enqueueLog LOGIN_SUCCESS x s)))"
    if "rt_inv s" for uid role x
    by (rule rt_inv_generateTokens) (use that assms in simp_all)
  have g2: "retired l h (snd (generateTokens K e uid role dev ip ua (enqueueLog LOGIN_SUCCESS x s)))"
    if "retired l h s" for uid role x
    by (rule retired_generateTokens) (use that assms in simp_all)
  show "rt_inv (snd (login K e email password dev ip ua s))" if "rt_inv s"
    using login_store[of K e email password dev ip ua s] that g1[OF that] by (elim disjE exE) simp_all
  show "retired l h (snd (login K e email password dev ip ua s))" if "retired l h s"
    using login_store[of K e email password dev ip ua s] that g2[OF that] by (elim disjE exE) simp_all
qed

lemma refreshTokens_step:
  assumes "rt_inv s" "sha256 K (random_token e) \<notin> set (map rt_token_hash (refresh_tokens s))"
  shows "rt_inv (snd (refreshTokens K e token dev s))"
    and "retired l h s \<Longrightarrow> retired l h (snd (refreshTokens K e token dev s))"
proof -
  show "rt_inv (snd (refreshTokens K e token dev s))"
  proof (cases "refresh_lookup K e token dev s")
    case (Inl err)
    then show ?thesis using assms(1) by (simp add: refreshTokens_def)
  next
    case (Inr st)
    obtain t uo where st: "st = (t, uo)" by (cases st)
    from refresh_lookup_mem[OF Inr[unfolded st]] have mem: "t \<in> set (refresh_tokens s)" by simp
    have inv1: "rt_inv (revoke_stored e t s)"
      by (rule rt_inv_revoke_stored[OF assms(1) mem])
    have fr1: "sha256 K (random_token e) \<notin> set (map rt_token_hash (refresh_tokens (revoke_stored e t s)))"
      unfolding hashes_revoke_stored[OF assms(1) mem] by (rule assms(2))
    show ?thesis
    proof (cases uo)
      case None
      then show ?thesis using Inr st inv1 by (simp add: refreshTokens_def refresh_rotate_def)
    next
      case (Some u)
      have "rt_inv (snd (generateTokens K e (u_id u) (u_role u) dev (rt_ip t) (rt_user_agent t)
                      (enqueueLog REFRESH (Some (u_id u)) (revoke_stored e t s))))"
        by (rule rt_inv_generateTokens) (use inv1 fr1 in simp_all)
      then show ?thesis using Inr st Some
        by (simp add: refreshTokens_def refresh_rotate_def)
    qed
  qed
  show "retired l h (snd (refreshTokens K e token dev s))" if r: "retired l h s"
  proof (cases "refresh_lookup K e token dev s")
    case (Inl err)
    then show ?thesis using r by (simp add: refreshTokens_def)
  next
    case (Inr st)
    obtain t uo where st: "st = (t, uo)" by (cases st)
    from refresh_lookup_mem[OF Inr[unfolded st]] have mem: "t \<in> set (refresh_tokens s)" by simp
    have r1: "retired l h (revoke_stored e t s)"
      by (rule retired_revoke_stored[OF assms(1) mem r])
    have fr1: "sha256 K (random_token e) \<notin> set (map rt_token_hash (refresh_tokens (revoke_stored e t s)))"
      unfolding hashes_revoke_stored[OF assms(1) mem] by (rule assms(2))
    show ?thesis
    proof (cases uo)
      case None
      then show ?thesis using Inr st r1 by (simp add: refreshTokens_def refresh_rotate_def)
    next
      case (Some u)
      have "retired l h (snd (generateTokens K e (u_id u) (u_role u) dev (rt_ip t) (rt_user_agent t)
                      (enqueueLog REFRESH (Some (u_id u)) (revoke_stored e t s))))"
        by (rule retired_generateTokens) (use r1 fr1 in simp_all)
      then show ?thesis using Inr st Some
        by (simp add: refreshTokens_def refresh_rotate_def)
    qed
  qed
qed

lemma rt_inv_step:
  assumes "rt_inv s" "fresh K e a s"
  shows "rt_inv (snd (exec K e a s))"
proof (cases a)
  case (Register email password full_name ip ua)
  then show ?thesis using assms(1) by (auto intro: rt_inv_same simp: register_frame)
next
  case (VerifyEmail token)
  then show ?thesis using assms(1) by (auto intro: rt_inv_same simp: verifyEmail_frame)
next
  case (Login email password dev ip ua)
  then show ?thesis using assms by (simp add: login_step)
next
  case (RefreshTokens token dev)
  then show ?thesis using assms by (simp add: refreshTokens_step)
next
  case (Logout token)
  from logout_rows[OF assms(1), of K token] obtain f where
    "refresh_tokens (snd (logout K token s)) = map f (refresh_tokens s)"
    "\<And>t. rt_id (f t) = rt_id t" "\<And>t. rt_token_hash (f t) = rt_token_hash t"
    and n: "next_id (snd (logout K token s)) = next_id s"
    by blast
  then show ?thesis using Logout assms(1) by (auto intro: rt_inv_map)
next
  case (LogoutAll uid)
  show ?thesis unfolding LogoutAll exec.simps
    by (rule rt_inv_map[OF assms(1) logoutAll_rows(1)]) (simp_all add: logoutAll_rows)
next
  case (RequestPasswordReset email)
  then show ?thesis using assms(1) by (auto intro: rt_inv_same simp: requestPasswordReset_frame)
next
  case (VerifyResetToken token)
  then show ?thesis using assms(1) by (simp add: verifyResetToken_frame)
next
  case (ResetPassword token newPassword)
  from resetPassword_rows[of K e token newPassword s] obtain uid b where
    "refresh_tokens (snd (resetPassword K e token newPassword s)) =
      map (\<lambda>t. if b \<and> rt_user t = uid then t\<lparr>rt_is_revoked := True\<rparr> else t) (refresh_tokens s)"
    and "next_id (snd (resetPassword K e token newPassword s)) = next_id s"
    by blast
  then show ?thesis using ResetPassword assms(1) by (auto intro: rt_inv_map)
next
  case (UpdateUser userId dto ip ua)
  then show ?thesis using assms(1) by (auto intro: rt_inv_same simp: updateUser_frame)
next
  case (DeleteUser userId ip ua)
  then show ?thesis using assms(1) by (auto intro: rt_inv_same simp: deleteUser_frame)
qed

lemma retired_step:
  assumes "rt_inv s" "retired l h s" "fresh K e a s"
  shows "retired l h (snd (exec K e a s))"
proof (cases a)
  case (Register email password full_name ip ua)
  then show ?thesis using assms(2) by (auto intro: retired_same simp: register_frame)
next
  case (VerifyEmail token)
  then show ?thesis using assms(2) by (auto intro: retired_same simp: verifyEmail_frame)
next
  case (Login email password dev ip ua)
  then show ?thesis using assms by (simp add: login_step)
next
  case (RefreshTokens token dev)
  then show ?thesis using assms by (simp add: refreshTokens_step)
next
  case (Logout token)
  from logout_rows(1)[OF assms(1), of K token l] obtain f where
    "refresh_tokens (snd (logout K token s)) = map f (refresh_tokens s)"
    "\<And>t. rt_token_hash (f t) = rt_token_hash t" "\<And>t. unusable l t \<Longrightarrow> unusable l (f t)"
    by blast
  then show ?thesis using Logout assms(2) by (auto intro: retired_map)
next
  case (LogoutAll uid)
  show ?thesis unfolding LogoutAll exec.simps
    by (rule retired_map[OF assms(2) logoutAll_rows(1)]) (simp_all add: unusable_def)
next
  case (RequestPasswordReset email)
  then show ?thesis using assms(2) by (auto intro: retired_same simp: requestPasswordReset_frame)
next
  case (VerifyResetToken token)
  then show ?thesis using assms(2) by (simp add: verifyResetToken_frame)
next
  case (ResetPassword token newPassword)
  from resetPassword_rows[of K e token newPassword s] obtain uid b where
    "refresh_tokens (snd (resetPassword K e token newPassword s)) =
      map (\<lambda>t. if b \<and> rt_user t = uid then t\<lparr>rt_is_revoked := True\<rparr> else t) (refresh_tokens s)"
    by blast
  then show ?thesis using ResetPassword assms(2)
    by (auto intro!: retired_map[where s = s] simp: unusable_def)
next
  case (UpdateUser userId dto ip ua)
  then show ?thesis using assms(2) by (auto intro: retired_same simp: updateUser_frame)
next
  case (DeleteUser userId ip ua)
  then show ?thesis using assms(2) by (auto intro: retired_same simp: deleteUser_frame)
qed

lemma rt_inv_init: "rt_inv init"
  by (simp add: rt_inv_def init_def)

lemma rt_inv_run: "rt_inv s \<Longrightarrow> fresh_run K tr s \<Longrightarrow> rt_inv (run K tr s)"
  by (induction tr arbitrary: s) (auto simp: rt_inv_step)

lemma retired_run:
  "rt_inv s \<Longrightarrow> retired l h s \<Longrightarrow> fresh_run K tr s \<Longrightarrow> retired l h (run K tr s)"
  by (induction tr arbitrary: s) (auto simp: rt_inv_step retired_step)

lemma rotate_retires:
  assumes inv: "rt_inv s"
    and fr: "sha256 K (random_token e) \<notin> set (map rt_token_hash (refresh_tokens s))"
    and ok: "refreshTokens K e token dev s = (Inr r, s1)"
  shows "retired None (sha256 K token) s1"
proof -
  from ok obtain st where lk: "refresh_lookup K e token dev s = Inr st"
    by (auto simp: refreshTokens_def split: sum.splits)
  obtain t uo where st: "st = (t, uo)" by (cases st)
  from refresh_lookup_mem[OF lk[unfolded st]]
  have mem: "t \<in> set (refresh_tokens s)" and h: "rt_token_hash t = sha256 K token" by simp_all
  from ok lk st obtain u where uo: "uo = Some u"
    by (cases uo) (auto simp: refreshTokens_def refresh_rotate_def)
  have s1: "s1 = snd (generateTokens K e (u_id u) (u_role u) dev (rt_ip t) (rt_user_agent t)
                        (enqueueLog REFRESH (Some (u_id u)) (revoke_stored e t s)))"
    using ok lk st uo by (auto simp: refreshTokens_def refresh_rotate_def split: prod.splits)
  have dh: "distinct (map rt_token_hash (refresh_tokens s))"
    using inv by (simp add: rt_inv_def)
  have only: "y = t" if "y \<in> set (refresh_tokens s)" "rt_token_hash y = sha256 K token" for y
    by (rule distinct_key_eq[OF dh mem that(1)]) (simp add: that(2) h)
  have "retired None (sha256 K token) (revoke_stored e t s)"
    unfolding retired_def
  proof (intro conjI ballI impI)
    show "sha256 K token \<in> set (map rt_token_hash (refresh_tokens (revoke_stored e t s)))"
      unfolding hashes_revoke_stored[OF inv mem] using mem h by force
  next
    fix y assume y: "y \<in> set (refresh_tokens (revoke_stored e t s))"
      and hy: "rt_token_hash y = sha256 K token"
    from y obtain z where z: "z \<in> set (refresh_tokens s)"
      and yz: "y = (if z = t then t\<lparr>rt_is_revoked := True, rt_last_seen_at := Some (now e)\<rparr> else z)"
      unfolding revoke_stored_rows[OF inv mem] by auto
    show "unusable None y"
    proof (cases "z = t")
      case True
      then show ?thesis using yz by (simp add: unusable_def)
    next
      case False
      then have "y = z" using yz by simp
      with hy z only have "z = t" by simp
      with False show ?thesis by simp
    qed
  qed
  moreover have "sha256 K (random_token e)
      \<notin> set (map rt_token_hash (refresh_tokens (revoke_stored e t s)))"
    unfolding hashes_revoke_stored[OF inv mem] by (rule fr)
  ultimately show ?thesis
    unfolding s1 by (intro retired_generateTokens) simp_all
qed

lemma retired_refresh:
  assumes "retired l (sha256 K token) s"
  shows "l = None \<Longrightarrow> fst (refreshTokens K e token dev s)
            = Inl (UnauthorizedException ''Invalid or revoked refresh token'')"
    and "l = Some t0 \<Longrightarrow> t0 \<le> now e \<Longrightarrow> is_Unauthorized (fst (refreshTokens K e token dev s))"
proof -
  let ?f = "find (\<lambda>t. rt_token_hash t = sha256 K token \<and> rt_device_id t = dev \<and> \<not> rt_is_revoked t)
              (refresh_tokens s)"
  have un: "unusable l t" if "?f = Some t" for t
    using find_Some_mem[OF that] assms by (auto simp: retired_def)
  show "fst (refreshTokens K e token dev s)
            = Inl (UnauthorizedException ''Invalid or revoked refresh token'')" if "l = None"
  proof (cases ?f)
    case None
    then show ?thesis by (simp add: refreshTokens_def refresh_lookup_def)
  next
    case (Some t)
    from un[OF Some] find_Some_mem[OF Some] that show ?thesis by (simp add: unusable_def)
  qed
  show "is_Unauthorized (fst (refreshTokens K e token dev s))" if "l = Some t0" "t0 \<le> now e"
  proof (cases ?f)
    case None
    then show ?thesis by (simp add: refreshTokens_def refresh_lookup_def)
  next
    case (Some t)
    from un[OF Some] find_Some_mem[OF Some] that have "rt_expires_at t < now e"
      by (auto simp: unusable_def)
    then show ?thesis using Some by (simp add: refreshTokens_def refresh_lookup_def)
  qed
qed

text \<open>
  C1. In every store reached from the empty one by calls that mint fresh tokens: when
  \<^verbatim>\<open>refreshTokens\<close> succeeds for a raw token, every row holding that token's digest is
  revoked at once, and after any further calls every \<^verbatim>\<open>refreshTokens\<close> with the same raw
  token, on any device and at any time, fails with Unauthorized ("Invalid or revoked refresh
  token"). More generally a row that is revoked, or expired before some time, is never usable
  again: presenting its raw token at or after that time, after any further calls, fails with
  Unauthorized.
\<close>

theorem refresh_token_single_use:
  assumes "fresh_run K tr init"
  shows "(fresh K e (RefreshTokens token dev) (run K tr init)
            \<and> refreshTokens K e token dev (run K tr init) = (Inr r, s1)
            \<and> fresh_run K tr1 s1
          \<longrightarrow> (\<forall>t\<in>set (refresh_tokens s1). rt_token_hash t = sha256 K token \<longrightarrow> rt_is_revoked t)
            \<and> fst (refreshTokens K e1 token dev1 (run K tr1 s1))
                = Inl (UnauthorizedException ''Invalid or revoked refresh token''))
       \<and> (t \<in> set (refresh_tokens (run K tr init)) \<and> rt_token_hash t = sha256 K token2
            \<and> (rt_is_revoked t \<or> rt_expires_at t < t0)
            \<and> fresh_run K tr2 (run K tr init) \<and> t0 \<le> now e2
          \<longrightarrow> is_Unauthorized (fst (refreshTokens K e2 token2 dev2 (run K tr2 (run K tr init)))))"
proof (intro conjI impI)
  let ?s = "run K tr init"
  have inv: "rt_inv ?s"
    by (rule rt_inv_run[OF rt_inv_init assms])
  {
    assume a: "fresh K e (RefreshTokens token dev) ?s
                 \<and> refreshTokens K e token dev ?s = (Inr r, s1) \<and> fresh_run K tr1 s1"
    then have fr: "sha256 K (random_token e) \<notin> set (map rt_token_hash (refresh_tokens ?s))"
      by simp
    from a have s1: "s1 = snd (exec K e (RefreshTokens token dev) ?s)" by simp
    have inv1: "rt_inv s1"
      unfolding s1 using a by (intro rt_inv_step[OF inv]) simp
    from a have ok: "refreshTokens K e token dev ?s = (Inr r, s1)" by simp
    have ret1: "retired None (sha256 K token) s1"
      by (rule rotate_retires[OF inv fr ok])
    then show "\<forall>t\<in>set (refresh_tokens s1). rt_token_hash t = sha256 K token \<longrightarrow> rt_is_revoked t"
      by (simp add: retired_def unusable_def)
    have "retired None (sha256 K token) (run K tr1 s1)"
      using a by (intro retired_run[OF inv1 ret1]) simp
    then show "fst (refreshTokens K e1 token dev1 (run K tr1 s1))
                = Inl (UnauthorizedException ''Invalid or revoked refresh token'')"
      by (rule retired_refresh(1)) simp
  }
  {
    assume b: "t \<in> set (refresh_tokens ?s) \<and> rt_token_hash t = sha256 K token2
            \<and> (rt_is_revoked t \<or> rt_expires_at t < t0)
            \<and> fresh_run K tr2 ?s \<and> t0 \<le> now e2"
    have dh: "distinct (map rt_token_hash (refresh_tokens ?s))"
      using inv by (simp add: rt_inv_def)
    from b have mem: "t \<in> set (refresh_tokens ?s)" and h: "rt_token_hash t = sha256 K token2"
      by simp_all
    have only: "y = t" if "y \<in> set (refresh_tokens ?s)" "rt_token_hash y = sha256 K token2" for y
      by (rule distinct_key_eq[OF dh mem that(1)]) (simp add: that(2) h)
    have "retired (Some t0) (sha256 K token2) ?s"
      unfolding retired_def
    proof (intro conjI ballI impI)
      show "sha256 K token2 \<in> set (map rt_token_hash (refresh_tokens ?s))"
        using mem h by force
    next
      fix y assume "y \<in> set (refresh_tokens ?s)" "rt_token_hash y = sha256 K token2"
      then have "y = t" by (rule only)
      then show "unusable (Some t0) y" using b by (simp add: unusable_def)
    qed
    then have "retired (Some t0) (sha256 K token2) (run K tr2 ?s)"
      using b by (intro retired_run[OF inv]) simp_all
    then show "is_Unauthorized (fst (refreshTokens K e2 token2 dev2 (run K tr2 ?s)))"
      using b by (intro retired_refresh(2)[where ?t0.0 = t0]) simp_all
  }
qed

theorem refresh_token_single_use_witness:
  "fst (refreshTokens K0 (env0 2000 ''r3'') ''r1'' ''d1''
          (run K0 tr_later
             (snd (refreshTokens K0 (env0 1000 ''r2'') ''r1'' ''d1'' (run K0 tr_session init)))))
     = Inl (UnauthorizedException ''Invalid or revoked refresh token'')
   \<and> is_Unauthorized (fst (refreshTokens K0 (env0 604800011 ''r3'') ''r1'' ''d1''
          (run K0 tr_later (run K0 tr_session init))))"
proof -
  let ?p = "refreshTokens K0 (env0 1000 ''r2'') ''r1'' ''d1'' (run K0 tr_session init)"
  have reach: "fresh_run K0 tr_session init"
    by (simp add: trace_defs fixture_defs op_defs)
  have st: "run K0 tr_session init = s_session"
    by (simp add: trace_defs fixture_defs op_defs)
  have "\<not> isl (fst ?p)"
    unfolding st by (simp add: fixture_defs op_defs)
  then obtain r where rot: "?p = (Inr r, snd ?p)"
    by (auto dest: Inr_result)
  have fr: "fresh K0 (env0 1000 ''r2'') (RefreshTokens ''r1'' ''d1'') (run K0 tr_session init)"
    unfolding st by (simp add: fixture_defs)
  have fr1: "fresh_run K0 tr_later (snd ?p)"
    unfolding st by (simp add: trace_defs fixture_defs op_defs)
  have fr2: "fresh_run K0 tr_later (run K0 tr_session init)"
    unfolding st by (simp add: trace_defs fixture_defs op_defs)
  have row: "hd (refresh_tokens s_session) \<in> set (refresh_tokens (run K0 tr_session init))"
    "rt_token_hash (hd (refresh_tokens s_session)) = sha256 K0 ''r1''"
    "rt_expires_at (hd (refresh_tokens s_session)) < 604800011"
    unfolding st by (simp_all add: fixture_defs)
  have n: "604800011 \<le> now (env0 604800011 ''r3'')"
    by (simp add: env0_def)
  from refresh_token_single_use[OF reach, where e = "env0 1000 ''r2''" and token = "''r1''"
      and dev = "''d1''" and r = r and ?s1.0 = "snd ?p" and ?tr1.0 = tr_later
      and ?e1.0 = "env0 2000 ''r3''" and ?dev1.0 = "''d1''"
      and t = "hd (refresh_tokens s_session)" and ?token2.0 = "''r1''" and ?t0.0 = 604800011
      and ?tr2.0 = tr_later and ?e2.0 = "env0 604800011 ''r3''" and ?dev2.0 = "''d1''"]
    fr rot fr1 fr2 row n
  show ?thesis by simp
qed

subsection \<open>Two requests racing on one token\<close>

text \<open>
  C2, on the code. Two \<^verbatim>\<open>refreshTokens\<close> calls for the one valid token of \<open>s_session\<close>,
  interleaved at the await after \<^verbatim>\<open>findOne\<close>: both succeed, and the store ends with two
  unrevoked successors of the same token. Run one after the other, the second call is
  Unauthorized.
\<close>

theorem concurrent_refresh_both_succeed:
  "run K0 tr_session init = s_session
   \<and> \<not> isl (fst (fst (refresh_interleaved K0 (env0 1000 ''r2'') (env0 1001 ''r3'') ''r1'' ''d1'' s_session)))
   \<and> \<not> isl (snd (fst (refresh_interleaved K0 (env0 1000 ''r2'') (env0 1001 ''r3'') ''r1'' ''d1'' s_session)))
   \<and> map rt_token_hash (filter (\<lambda>t. \<not> rt_is_revoked t) (refresh_tokens
        (snd (refresh_interleaved K0 (env0 1000 ''r2'') (env0 1001 ''r3'') ''r1'' ''d1'' s_session))))
       = [''#r2'', ''#r3'']
   \<and> is_Unauthorized (fst (refreshTokens K0 (env0 1001 ''r3'') ''r1'' ''d1''
        (snd (refreshTokens K0 (env0 1000 ''r2'') ''r1'' ''d1'' s_session))))"
  proof (intro conjI)
  show "run K0 tr_session init = s_session"
    by (rule s_session_reached)
qed (simp_all add: refresh_interleaved_def fixture_defs refreshTokens_def refresh_lookup_def
       findOneById_def refresh_rotate_def revoke_stored_def generateTokens_def enqueueLog_def
       save_by_def)

subsection \<open>The cooldown check\<close>

text \<open>Every call keeps the rows that carry a \<^verbatim>\<open>last_seen_at\<close> revoked.\<close>

lemma seen_revoked_rows:
  assumes "seen_revoked s"
    and "\<And>t. t \<in> set (refresh_tokens s') \<Longrightarrow>
            t \<in> set (refresh_tokens s) \<or> rt_is_revoked t \<or> rt_last_seen_at t = None"
  shows "seen_revoked s'"
  unfolding seen_revoked_def
proof (intro ballI impI)
  fix t assume t: "t \<in> set (refresh_tokens s')" and seen: "rt_last_seen_at t \<noteq> None"
  from assms(2)[OF t] seen assms(1) show "rt_is_revoked t"
    by (auto simp: seen_revoked_def)
qed

lemma seen_revoked_same:
  "seen_revoked s \<Longrightarrow> refresh_tokens s' = refresh_tokens s \<Longrightarrow> seen_revoked s'"
  by (simp add: seen_revoked_def)

lemma seen_revoked_revoke_stored: "seen_revoked s \<Longrightarrow> seen_revoked (revoke_stored e t s)"
  by (erule seen_revoked_rows) (auto simp: revoke_stored_def dest!: set_save_by)

lemma seen_revoked_generateTokens:
  "seen_revoked s \<Longrightarrow> seen_revoked (snd (generateTokens K e uid role dev ip ua s))"
  by (erule seen_revoked_rows) (auto simp: generateTokens_def)

lemma seen_revoked_enqueueLog [simp]: "seen_revoked (enqueueLog a u s) = seen_revoked s"
  by (simp add: seen_revoked_def)

lemma seen_revoked_step:
  assumes "seen_revoked s"
  shows "seen_revoked (snd (exec K e a s))"
proof (cases a)
  case (Register email password full_name ip ua)
  then show ?thesis using assms by (auto intro: seen_revoked_same simp: register_frame)
next
  case (VerifyEmail token)
  then show ?thesis using assms by (auto intro: seen_revoked_same simp: verifyEmail_frame)
next
  case (Login email password dev ip ua)
  from login_store[of K e email password dev ip ua s] assms
  have "seen_revoked (snd (login K e email password dev ip ua s))"
    by (elim disjE exE) (simp_all add: seen_revoked_generateTokens)
  then show ?thesis using Login by simp
next
  case (RefreshTokens token dev)
  have "seen_revoked (snd (refreshTokens K e token dev s))"
    using assms
    by (auto simp: refreshTokens_def refresh_rotate_def seen_revoked_revoke_stored
          seen_revoked_generateTokens split: sum.splits option.splits)
  then show ?thesis using RefreshTokens by simp
next
  case (Logout token)
  have "seen_revoked (snd (logout K token s))"
    by (rule seen_revoked_rows[OF assms])
       (auto simp: logout_def split: option.splits dest!: set_save_by)
  then show ?thesis using Logout by simp
next
  case (LogoutAll uid)
  have "seen_revoked (snd (logoutAll e uid s))"
    by (rule seen_revoked_rows[OF assms]) (auto simp: logoutAll_rows)
  then show ?thesis using LogoutAll by simp
next
  case (RequestPasswordReset email)
  then show ?thesis using assms by (auto intro: seen_revoked_same simp: requestPasswordReset_frame)
next
  case (VerifyResetToken token)
  then show ?thesis using assms by (simp add: verifyResetToken_frame)
next
  case (ResetPassword token newPassword)
  from resetPassword_rows(1)[of K e token newPassword s] obtain uid b where
    r: "refresh_tokens (snd (resetPassword K e token newPassword s)) =
      map (\<lambda>t. if b \<and> rt_user t = uid then t\<lparr>rt_is_revoked := True\<rparr> else t) (refresh_tokens s)"
    by blast
  have "seen_revoked (snd (resetPassword K e token newPassword s))"
    by (rule seen_revoked_rows[OF assms]) (auto simp: r)
  then show ?thesis using ResetPassword by simp
next
  case (UpdateUser userId dto ip ua)
  then show ?thesis using assms by (auto intro: seen_revoked_same simp: updateUser_frame)
next
  case (DeleteUser userId ip ua)
  then show ?thesis using assms by (auto intro: seen_revoked_same simp: deleteUser_frame)
qed

lemma seen_revoked_run: "seen_revoked s \<Longrightarrow> seen_revoked (run K tr s)"
  by (induction tr arbitrary: s) (auto simp: seen_revoked_step)

lemma too_soon_unreachable:
  "fst (refreshTokens K e token device_id (run K tr init))
     \<noteq> Inl (BadRequestException ''Refresh requested too soon'')"
proof -
  have "seen_revoked init" by (simp add: seen_revoked_def init_def)
  then have sr: "seen_revoked (run K tr init)" by (rule seen_revoked_run)
  show ?thesis
  proof (cases "find (\<lambda>t. rt_token_hash t = sha256 K token \<and> rt_device_id t = device_id
                          \<and> \<not> rt_is_revoked t) (refresh_tokens (run K tr init))")
    case None
    then show ?thesis by (simp add: refreshTokens_def refresh_lookup_def)
  next
    case (Some t)
    from find_Some_mem[OF Some] sr have "rt_last_seen_at t = None"
      by (auto simp: seen_revoked_def)
    then show ?thesis using Some
      by (auto simp: refreshTokens_def refresh_lookup_def refresh_rotate_def split: option.splits)
  qed
qed

text \<open>
  C7, on the code. The cooldown rejection is never returned in a store reached from the empty
  one: \<^verbatim>\<open>last_seen_at\<close> is only written together with \<^verbatim>\<open>is_revoked = true\<close>, and the
  lookup skips revoked rows. In \<open>s_session\<close> the token is rotated at time 1000 and presented
  again one second later: the call fails with Unauthorized ("Invalid or revoked refresh token"),
  not with the cooldown rejection.
\<close>

theorem refresh_again_within_cooldown:
  "fst (refreshTokens K e token device_id (run K tr init))
     \<noteq> Inl (BadRequestException ''Refresh requested too soon'')
   \<and> run K0 tr_session init = s_session
   \<and> \<not> isl (fst (refreshTokens K0 (env0 1000 ''r2'') ''r1'' ''d1'' s_session))
   \<and> fst (refreshTokens K0 (env0 2000 ''r3'') ''r1'' ''d1''
            (snd (refreshTokens K0 (env0 1000 ''r2'') ''r1'' ''d1'' s_session)))
       = Inl (UnauthorizedException ''Invalid or revoked refresh token'')"
proof (intro conjI)
  show "fst (refreshTokens K e token device_id (run K tr init))
          \<noteq> Inl (BadRequestException ''Refresh requested too soon'')"
    by (rule too_soon_unreachable)
  show "run K0 tr_session init = s_session"
    by (rule s_session_reached)
qed (simp_all add: fixture_defs refreshTokens_def refresh_lookup_def findOneById_def
       refresh_rotate_def revoke_stored_def generateTokens_def enqueueLog_def save_by_def)

section \<open>login\<close>

text \<open>
  C5, as the code has it. \<^verbatim>\<open>login\<close> succeeds exactly when \<^verbatim>\<open>findByEmail\<close> returns a user
  (so one that is not soft-deleted) whose verification flag is true and whose password hash
  matches; every failure is Unauthorized. The \<^verbatim>\<open>disabled\<close> flag is not consulted: changing it
  on any user changes nothing in the result.
\<close>

theorem login_guard:
  "((\<not> isl (fst (login K e email password device_id ip ua s)))
      = (\<exists>u. findByEmail s (toLowerCase K email) = Some u \<and> u_is_email_verified u
              \<and> bcrypt_compare K password (u_password_hash u)))
   \<and> (isl (fst (login K e email password device_id ip ua s))
        \<longrightarrow> is_Unauthorized (fst (login K e email password device_id ip ua s)))
   \<and> (\<not> isl (fst (login K e email password device_id ip ua s))
        \<longrightarrow> (\<exists>u\<in>set (users s). u_email u = toLowerCase K email \<and> u_deleted_at u = None
                 \<and> u_is_email_verified u \<and> bcrypt_compare K password (u_password_hash u)))
   \<and> fst (login K e email password device_id ip ua
             (s\<lparr>users := map (\<lambda>u. u\<lparr>u_disabled := d u\<rparr>) (users s)\<rparr>))
       = fst (login K e email password device_id ip ua s)"
proof (intro conjI impI)
  show "(\<not> isl (fst (login K e email password device_id ip ua s)))
      = (\<exists>u. findByEmail s (toLowerCase K email) = Some u \<and> u_is_email_verified u
              \<and> bcrypt_compare K password (u_password_hash u))"
    by (auto simp: login_def generateTokens_def split: option.splits)
next
  assume "isl (fst (login K e email password device_id ip ua s))"
  then show "is_Unauthorized (fst (login K e email password device_id ip ua s))"
    by (auto simp: login_def generateTokens_def split: option.splits if_splits)
next
  assume "\<not> isl (fst (login K e email password device_id ip ua s))"
  then obtain u where u: "findByEmail s (toLowerCase K email) = Some u" "u_is_email_verified u"
      "bcrypt_compare K password (u_password_hash u)"
    by (auto simp: login_def generateTokens_def split: option.splits if_splits)
  from find_Some_mem[OF u(1)[unfolded findByEmail_def]] u(2,3)
  show "\<exists>u\<in>set (users s). u_email u = toLowerCase K email \<and> u_deleted_at u = None
                 \<and> u_is_email_verified u \<and> bcrypt_compare K password (u_password_hash u)"
    by auto
next
  have "findByEmail (s\<lparr>users := map (\<lambda>u. u\<lparr>u_disabled := d u\<rparr>) (users s)\<rparr>) (toLowerCase K email)
          = map_option (\<lambda>u. u\<lparr>u_disabled := d u\<rparr>) (findByEmail s (toLowerCase K email))"
    by (simp add: findByEmail_def find_map_same)
  then show "fst (login K e email password device_id ip ua
             (s\<lparr>users := map (\<lambda>u. u\<lparr>u_disabled := d u\<rparr>) (users s)\<rparr>))
       = fst (login K e email password device_id ip ua s)"
    by (auto simp: login_def generateTokens_def split: option.splits)
qed

theorem login_guard_witness:
  "\<not> isl (fst (login K0 (env0 10 ''r1'') ''a@x.com'' ''pw12345'' ''d1'' ''ip'' ''ua'' s_session))
   \<and> is_Unauthorized
        (fst (login K0 (env0 10 ''r1'') ''a@x.com'' ''wrong'' ''d1'' ''ip'' ''ua'' s_session))
   \<and> is_Unauthorized
        (fst (login K0 (env0 10 ''r1'') ''b@x.com'' ''pw12345'' ''d1'' ''ip'' ''ua'' s_session))"
proof -
  have a: "findByEmail s_session (toLowerCase K0 ''a@x.com'') = Some user_a"
    and b: "findByEmail s_session (toLowerCase K0 ''b@x.com'') = None"
    by (simp_all add: fixture_defs findByEmail_def lower_ascii_def lower_char_def)
  have c: "u_is_email_verified user_a" "bcrypt_compare K0 ''pw12345'' (u_password_hash user_a)"
    "\<not> bcrypt_compare K0 ''wrong'' (u_password_hash user_a)"
    by (simp_all add: fixture_defs)
  from login_guard[of K0 "env0 10 ''r1''" "''a@x.com''" "''pw12345''" "''d1''" "''ip''" "''ua''"
         s_session]
       login_guard[of K0 "env0 10 ''r1''" "''a@x.com''" "''wrong''" "''d1''" "''ip''" "''ua''"
         s_session]
       login_guard[of K0 "env0 10 ''r1''" "''b@x.com''" "''pw12345''" "''d1''" "''ip''" "''ua''"
         s_session]
  show ?thesis
    by (simp add: a b c)
qed

theorem login_disabled_counterexample:
  "u_disabled (hd (users s_disabled))
   \<and> findByEmail s_disabled (toLowerCase K0 ''a@x.com'') = Some (hd (users s_disabled))
   \<and> \<not> isl (fst (login K0 (env0 10 ''r1'') ''a@x.com'' ''pw12345'' ''d1'' ''ip'' ''ua'' s_disabled))"
  by (simp add: s_disabled_def fixture_defs login_def generateTokens_def findByEmail_def
        lower_ascii_def lower_char_def enqueueLog_def)

section \<open>requestPasswordReset: the response\<close>

text \<open>
  C4, as the code has it. Whenever the new reset token can be saved, the response is the one
  generic message: for an unknown email, for an unverified user, and for a verified user whether
  the mail is sent or fails and whether the earlier tokens could be invalidated or not. The only
  other response is the Internal error of a failed token save, which a call gets exactly when
  that save fails for an existing, verified user.
\<close>

theorem request_reset_response:
  "(\<not> reset_token_save_fails e \<longrightarrow>
      fst (requestPasswordReset K e email s) = Inr (Message frontendMessage))
   \<and> (fst (requestPasswordReset K e email s) \<noteq> Inr (Message frontendMessage) \<longrightarrow>
        fst (requestPasswordReset K e email s)
          = Inl (InternalServerErrorException
                   ''Failed to generate reset token. Please try again later.'')
        \<and> reset_token_save_fails e
        \<and> (\<exists>u. findByEmail s (toLowerCase K email) = Some u \<and> u_is_email_verified u))
   \<and> (reset_token_save_fails e
        \<and> (\<exists>u. findByEmail s (toLowerCase K email) = Some u \<and> u_is_email_verified u) \<longrightarrow>
        fst (requestPasswordReset K e email s)
          = Inl (InternalServerErrorException
                   ''Failed to generate reset token. Please try again later.''))"
proof (intro conjI impI)
  assume "\<not> reset_token_save_fails e"
  then show "fst (requestPasswordReset K e email s) = Inr (Message frontendMessage)"
    by (auto simp: requestPasswordReset_def issue_reset_token_def sendPasswordResetEmail_def
          split: option.splits)
next
  assume ne: "fst (requestPasswordReset K e email s) \<noteq> Inr (Message frontendMessage)"
  then show "fst (requestPasswordReset K e email s)
          = Inl (InternalServerErrorException
                   ''Failed to generate reset token. Please try again later.'')"
    by (auto simp: requestPasswordReset_def issue_reset_token_def sendPasswordResetEmail_def
          split: option.splits if_splits)
  from ne show "reset_token_save_fails e"
    by (auto simp: requestPasswordReset_def issue_reset_token_def sendPasswordResetEmail_def
          split: option.splits if_splits)
  from ne show "\<exists>u. findByEmail s (toLowerCase K email) = Some u \<and> u_is_email_verified u"
    by (auto simp: requestPasswordReset_def issue_reset_token_def sendPasswordResetEmail_def
          split: option.splits if_splits)
next
  assume "reset_token_save_fails e
        \<and> (\<exists>u. findByEmail s (toLowerCase K email) = Some u \<and> u_is_email_verified u)"
  then show "fst (requestPasswordReset K e email s)
          = Inl (InternalServerErrorException
                   ''Failed to generate reset token. Please try again later.'')"
    by (auto simp: requestPasswordReset_def issue_reset_token_def)
qed

theorem request_reset_response_witness:
  "fst (requestPasswordReset K0 (env0 20 ''p1'') ''a@x.com'' s_session)
     = Inr (Message frontendMessage)
   \<and> fst (requestPasswordReset K0 ((env0 20 ''p1'')\<lparr>mail_fails := True\<rparr>) ''a@x.com'' s_session)
       = Inr (Message frontendMessage)
   \<and> fst (requestPasswordReset K0 (env0 20 ''p1'') ''nobody@x.com'' s_session)
       = Inr (Message frontendMessage)
   \<and> fst (requestPasswordReset K0 env_save_fails ''a@x.com'' s_session)
       = Inl (InternalServerErrorException
                ''Failed to generate reset token. Please try again later.'')"
proof -
  have user: "reset_token_save_fails env_save_fails
      \<and> (\<exists>u. findByEmail s_session (toLowerCase K0 ''a@x.com'') = Some u \<and> u_is_email_verified u)"
    by (simp add: env_save_fails_def fixture_defs findByEmail_def lower_ascii_def lower_char_def)
  have ok: "\<not> reset_token_save_fails (env0 20 ''p1'')"
    "\<not> reset_token_save_fails ((env0 20 ''p1'')\<lparr>mail_fails := True\<rparr>)"
    by (simp_all add: env0_def)
  note sent = request_reset_response[THEN conjunct1, THEN mp]
  note failed = request_reset_response[THEN conjunct2, THEN conjunct2, THEN mp]
  show ?thesis
    by (intro conjI sent[OF ok(1)] sent[OF ok(2)] failed[OF user])
qed

theorem request_reset_counterexample:
  "fst (requestPasswordReset K0 env_save_fails ''a@x.com'' s_session)
     = Inl (InternalServerErrorException ''Failed to generate reset token. Please try again later.'')
   \<and> fst (requestPasswordReset K0 env_save_fails ''nobody@x.com'' s_session)
     = Inr (Message frontendMessage)
   \<and> fst (requestPasswordReset K0 env_save_fails ''a@x.com'' s_session)
     \<noteq> fst (requestPasswordReset K0 env_save_fails ''nobody@x.com'' s_session)"
  by (simp add: requestPasswordReset_def issue_reset_token_def env_save_fails_def fixture_defs findByEmail_def
        lower_ascii_def lower_char_def)

section \<open>resetPassword\<close>

text \<open>
  C9, as the code has it. When \<^verbatim>\<open>resetPassword\<close> returns normally, the presented token was
  found, unused and unexpired, and its user exists; the password hash of exactly that user is
  replaced by the hash of the new password; the presented token is marked used unless that save
  fails; and \<^verbatim>\<open>logoutAll\<close> is attempted whether or not the marking failed and revokes
  every refresh token of the user unless \<^verbatim>\<open>logoutAll\<close> itself fails, a failure the code
  logs and ignores.
\<close>

theorem reset_password_effects:
  "resetPassword K e token newPassword s = (Inr r, s1) \<longrightarrow>
     (\<exists>stored user.
        find (\<lambda>t. prt_token_hash t = sha256 K token) (reset_tokens s) = Some stored
        \<and> \<not> prt_used stored \<and> \<not> prt_expires_at stored < now e
        \<and> findOneById s (prt_user_id stored) = Some user
        \<and> users s1 = map (\<lambda>u. if u_id u = u_id user
                                 then u\<lparr>u_password_hash := bcrypt_hash K newPassword 12\<rparr> else u) (users s)
        \<and> (\<forall>u\<in>set (users s1). u_id u = u_id user \<longrightarrow> u_password_hash u = bcrypt_hash K newPassword 12)
        \<and> (\<not> mark_used_fails e \<longrightarrow>
              (\<forall>t\<in>set (reset_tokens s1). prt_id t = prt_id stored \<longrightarrow> prt_used t))
        \<and> (\<not> revoke_all_fails e \<longrightarrow>
              (\<forall>t\<in>set (refresh_tokens s1). rt_user t = u_id user \<longrightarrow> rt_is_revoked t)))"
proof
  assume ok: "resetPassword K e token newPassword s = (Inr r, s1)"
  have st': "find (\<lambda>t. prt_token_hash t = sha256 K token) (reset_tokens s) \<noteq> None"
  proof
    assume "find (\<lambda>t. prt_token_hash t = sha256 K token) (reset_tokens s) = None"
    then have "fst (resetPassword K e token newPassword s) = Inl (UnauthorizedException
        ''This reset link is invalid or has already been used.'')"
      by (simp add: resetPassword_def)
    with ok show False by simp
  qed
  then obtain stored where st: "find (\<lambda>t. prt_token_hash t = sha256 K token) (reset_tokens s) = Some stored"
    by blast
  have live1: "\<not> prt_used stored"
  proof
    assume "prt_used stored"
    then have "isl (fst (resetPassword K e token newPassword s))"
      by (simp add: resetPassword_def st)
    with ok show False by simp
  qed
  have live2: "\<not> prt_expires_at stored < now e"
  proof
    assume "prt_expires_at stored < now e"
    then have "isl (fst (resetPassword K e token newPassword s))"
      by (simp add: resetPassword_def st live1)
    with ok show False by simp
  qed
  note live = live1 live2
  have us': "findOneById s (prt_user_id stored) \<noteq> None"
  proof
    assume "findOneById s (prt_user_id stored) = None"
    then have "isl (fst (resetPassword K e token newPassword s))"
      by (simp add: resetPassword_def st live)
    with ok show False by simp
  qed
  then obtain user where us: "findOneById s (prt_user_id stored) = Some user"
    by blast
  have nf: "\<not> password_update_fails e"
  proof
    assume "password_update_fails e"
    then have "isl (fst (resetPassword K e token newPassword s))"
      by (simp add: resetPassword_def st live us updatePassword_def)
    with ok show False by simp
  qed
  let ?s0 = "s\<lparr>users := map (\<lambda>u. if u_id u = u_id user
                                 then u\<lparr>u_password_hash := bcrypt_hash K newPassword 12\<rparr> else u) (users s)\<rparr>"
  have "snd (resetPassword K e token newPassword s) = enqueueLog PASSWORD_RESET_COMPLETED (Some (u_id user))
      (try_logoutAll e (u_id user) (mark_used e stored ?s0))"
    by (simp add: resetPassword_def st live us nf updatePassword_def)
  with ok have s1: "s1 = enqueueLog PASSWORD_RESET_COMPLETED (Some (u_id user))
      (try_logoutAll e (u_id user) (mark_used e stored ?s0))"
    by simp
  have users1: "users s1 = users ?s0"
    by (simp add: s1 enqueueLog_def try_logoutAll_def logoutAll_def mark_used_def)
  have mem: "stored \<in> set (reset_tokens s)"
    using find_Some_mem[OF st] by simp
  have used: "\<forall>t\<in>set (reset_tokens s1). prt_id t = prt_id stored \<longrightarrow> prt_used t"
    if "\<not> mark_used_fails e"
  proof -
    have "prt_id stored \<in> set (map prt_id (reset_tokens s))" using mem by force
    then have "reset_tokens s1 = map (\<lambda>y. if prt_id y = prt_id stored then stored\<lparr>prt_used := True\<rparr> else y)
                 (reset_tokens s)"
      using that by (simp add: s1 enqueueLog_def try_logoutAll_def logoutAll_def mark_used_def save_by_def)
    then show ?thesis by auto
  qed
  have revoked: "\<forall>t\<in>set (refresh_tokens s1). rt_user t = u_id user \<longrightarrow> rt_is_revoked t"
    if "\<not> revoke_all_fails e"
  proof -
    have "refresh_tokens s1 = map (\<lambda>t. if rt_user t = u_id user then t\<lparr>rt_is_revoked := True\<rparr> else t)
            (refresh_tokens s)"
      using that by (simp add: s1 try_logoutAll_rows mark_used_def)
    then show ?thesis by auto
  qed
  have pw: "\<forall>u\<in>set (users s1). u_id u = u_id user \<longrightarrow> u_password_hash u = bcrypt_hash K newPassword 12"
    unfolding users1 by auto
  have "find (\<lambda>t. prt_token_hash t = sha256 K token) (reset_tokens s) = Some stored
        \<and> \<not> prt_used stored \<and> \<not> prt_expires_at stored < now e
        \<and> findOneById s (prt_user_id stored) = Some user
        \<and> users s1 = map (\<lambda>u. if u_id u = u_id user
                                 then u\<lparr>u_password_hash := bcrypt_hash K newPassword 12\<rparr> else u) (users s)
        \<and> (\<forall>u\<in>set (users s1). u_id u = u_id user \<longrightarrow> u_password_hash u = bcrypt_hash K newPassword 12)
        \<and> (\<not> mark_used_fails e \<longrightarrow>
              (\<forall>t\<in>set (reset_tokens s1). prt_id t = prt_id stored \<longrightarrow> prt_used t))
        \<and> (\<not> revoke_all_fails e \<longrightarrow>
              (\<forall>t\<in>set (refresh_tokens s1). rt_user t = u_id user \<longrightarrow> rt_is_revoked t))"
  proof (intro conjI impI)
    show "users s1 = map (\<lambda>u. if u_id u = u_id user
                                 then u\<lparr>u_password_hash := bcrypt_hash K newPassword 12\<rparr> else u) (users s)"
      using users1 by simp
  qed (fact st live1 live2 us pw | erule used | erule revoked)+
  then show "\<exists>stored user.
        find (\<lambda>t. prt_token_hash t = sha256 K token) (reset_tokens s) = Some stored
        \<and> \<not> prt_used stored \<and> \<not> prt_expires_at stored < now e
        \<and> findOneById s (prt_user_id stored) = Some user
        \<and> users s1 = map (\<lambda>u. if u_id u = u_id user
                                 then u\<lparr>u_password_hash := bcrypt_hash K newPassword 12\<rparr> else u) (users s)
        \<and> (\<forall>u\<in>set (users s1). u_id u = u_id user \<longrightarrow> u_password_hash u = bcrypt_hash K newPassword 12)
        \<and> (\<not> mark_used_fails e \<longrightarrow>
              (\<forall>t\<in>set (reset_tokens s1). prt_id t = prt_id stored \<longrightarrow> prt_used t))
        \<and> (\<not> revoke_all_fails e \<longrightarrow>
              (\<forall>t\<in>set (refresh_tokens s1). rt_user t = u_id user \<longrightarrow> rt_is_revoked t))"
    by (intro exI)
qed

theorem reset_password_counterexample:
  "fst (resetPassword K0 ((env0 40 [])\<lparr>revoke_all_fails := True\<rparr>) ''p1'' ''newpw'' s_reset)
     = Inr (Message resetPasswordMessage)
   \<and> map (\<lambda>t. (rt_user t, rt_is_revoked t))
        (refresh_tokens (snd (resetPassword K0 ((env0 40 [])\<lparr>revoke_all_fails := True\<rparr>)
                                ''p1'' ''newpw'' s_reset)))
       = [(1, False)]
   \<and> map u_password_hash
        (users (snd (resetPassword K0 ((env0 40 [])\<lparr>revoke_all_fails := True\<rparr>)
                       ''p1'' ''newpw'' s_reset)))
       = [''$newpw'']"
  by (simp add: fixture_defs fixture2_defs op_defs)

theorem reset_password_effects_witness:
  "fst (resetPassword K0 ((env0 40 [])\<lparr>mark_used_fails := True\<rparr>) ''p1'' ''newpw'' s_reset)
     = Inr (Message resetPasswordMessage)
   \<and> map (\<lambda>t. (rt_user t, rt_is_revoked t))
        (refresh_tokens (snd (resetPassword K0 ((env0 40 [])\<lparr>mark_used_fails := True\<rparr>)
                                ''p1'' ''newpw'' s_reset)))
       = [(1, True)]
   \<and> map u_password_hash
        (users (snd (resetPassword K0 ((env0 40 [])\<lparr>mark_used_fails := True\<rparr>)
                       ''p1'' ''newpw'' s_reset)))
       = [''$newpw'']
   \<and> map prt_used
        (reset_tokens (snd (resetPassword K0 (env0 40 []) ''p1'' ''newpw'' s_reset)))
       = [True]"
proof -
  let ?e = "(env0 40 [])\<lparr>mark_used_fails := True\<rparr>"
  let ?p = "resetPassword K0 ?e ''p1'' ''newpw'' s_reset"
  let ?q = "resetPassword K0 (env0 40 []) ''p1'' ''newpw'' s_reset"
  have p: "?p = (Inr (Message resetPasswordMessage), snd ?p)"
    and q: "?q = (Inr (Message resetPasswordMessage), snd ?q)"
    by (simp_all add: fixture_defs fixture2_defs op_defs)
  have tbl: "map rt_user (refresh_tokens (snd ?p)) = [1]" "map prt_id (reset_tokens (snd ?q)) = [3]"
    by (simp_all add: fixture_defs fixture2_defs op_defs)
  have f: "find (\<lambda>t. prt_token_hash t = sha256 K0 ''p1'') (reset_tokens s_reset) = Some r_reset"
    "findOneById s_reset (prt_user_id r_reset) = Some user_a"
    "\<not> revoke_all_fails ?e" "\<not> mark_used_fails (env0 40 [])"
    "u_id user_a = 1" "prt_id r_reset = 3"
    by (simp_all add: fixture_defs fixture2_defs findOneById_def)
  from reset_password_effects[of K0 ?e "''p1''" "''newpw''" s_reset "Message resetPasswordMessage" "snd ?p"] p f
  have a: "\<forall>t\<in>set (refresh_tokens (snd ?p)). rt_user t = 1 \<longrightarrow> rt_is_revoked t"
    and b: "users (snd ?p) = map (\<lambda>u. if u_id u = 1 then u\<lparr>u_password_hash := bcrypt_hash K0 ''newpw'' 12\<rparr> else u) (users s_reset)"
    by auto
  from reset_password_effects[of K0 "env0 40 []" "''p1''" "''newpw''" s_reset "Message resetPasswordMessage" "snd ?q"] q f
  have c: "\<forall>t\<in>set (reset_tokens (snd ?q)). prt_id t = 3 \<longrightarrow> prt_used t"
    by auto
  have la: "map (\<lambda>t. (rt_user t, rt_is_revoked t)) xs = [(1, True)]"
    if "map rt_user xs = [1]" "\<forall>t\<in>set xs. rt_user t = 1 \<longrightarrow> rt_is_revoked t" for xs
    using that by (cases xs) auto
  have lc: "map prt_used xs = [True]"
    if "map prt_id xs = [3]" "\<forall>t\<in>set xs. prt_id t = 3 \<longrightarrow> prt_used t" for xs
    using that by (cases xs) auto
  have r1: "fst ?p = Inr (Message resetPasswordMessage)"
    by (subst p) simp
  have pw: "map u_password_hash (users (snd ?p)) = [''$newpw'']"
    unfolding b by (simp add: fixture_defs fixture2_defs)
  show ?thesis
    by (intro conjI r1 la[OF tbl(1) a] pw lc[OF tbl(2) c])
qed

section \<open>Single active reset token\<close>








lemma single_active_enqueueLog [simp]: "single_active (enqueueLog a u s) = single_active s"
  by (simp add: single_active_def unused_tokens_def enqueueLog_def)





lemma resetPassword_store:
  "snd (resetPassword K e token newPassword s) = s
   \<or> (\<exists>stored uid us. snd (resetPassword K e token newPassword s)
         = enqueueLog PASSWORD_RESET_COMPLETED (Some uid)
             (try_logoutAll e uid (mark_used e stored (s\<lparr>users := us\<rparr>))))"
proof (cases "find (\<lambda>t. prt_token_hash t = sha256 K token) (reset_tokens s)")
  case None
  then show ?thesis by (simp add: resetPassword_def)
next
  case (Some stored)
  show ?thesis
  proof (cases "findOneById s (prt_user_id stored)")
    case None
    then show ?thesis using Some by (simp add: resetPassword_def)
  next
    case user: (Some user)
    show ?thesis
    proof (cases "prt_used stored \<or> prt_expires_at stored < now e \<or> password_update_fails e")
      case True
      then show ?thesis using Some user by (auto simp: resetPassword_def updatePassword_def)
    next
      case False
      then have "snd (resetPassword K e token newPassword s)
         = enqueueLog PASSWORD_RESET_COMPLETED (Some (u_id user))
             (try_logoutAll e (u_id user) (mark_used e stored
                (s\<lparr>users := map (\<lambda>u. if u_id u = u_id user
                       then u\<lparr>u_password_hash := bcrypt_hash K newPassword 12\<rparr> else u) (users s)\<rparr>)))"
        using Some user by (simp add: resetPassword_def updatePassword_def)
      then show ?thesis by blast
    qed
  qed
qed





text \<open>
  Two requests that overlap are another matter. With both lookups and both updates before
  either new row is saved, nothing fails and both new rows stay unused: the invariant below is
  one of calls that run one after another.
\<close>

lemma overlapping_resets_two_unused:
  "run K0 tr_session init = s_session
   \<and> fst (request_reset_interleaved K0 (env0 20 ''p1'') (env0 21 ''p2'') ''a@x.com'' s_session)
       = (Inr (Message frontendMessage), Inr (Message frontendMessage))
   \<and> map prt_token_hash
        (usable_tokens 40 1
           (snd (request_reset_interleaved K0 (env0 20 ''p1'') (env0 21 ''p2'') ''a@x.com''
                   s_session)))
       = [''#p1'', ''#p2'']"
proof (intro conjI)
  show "run K0 tr_session init = s_session"
    by (rule s_session_reached)
qed (simp_all add: request_reset_interleaved_def usable_tokens_def fixture_defs op_defs)




section \<open>verifyEmail\<close>

lemma pr_inv_frame:
  "pr_inv s \<Longrightarrow> pre_regs s' = pre_regs s \<Longrightarrow> next_id s \<le> next_id s' \<Longrightarrow> pr_inv s'"
  unfolding pr_inv_def by (auto intro: less_le_trans)

lemma pre_regs_frames:
  "pre_regs (snd (login K e email password dev ip ua s)) = pre_regs s"
  "pre_regs (snd (refreshTokens K e token dev s)) = pre_regs s"
  "pre_regs (snd (logout K token s)) = pre_regs s"
  "pre_regs (snd (logoutAll e uid s)) = pre_regs s"
  "pre_regs (try_logoutAll e uid s) = pre_regs s"
  "pre_regs (snd (requestPasswordReset K e email s)) = pre_regs s"
  "pre_regs (snd (resetPassword K e token newPassword s)) = pre_regs s"
proof -
  show "pre_regs (snd (login K e email password dev ip ua s)) = pre_regs s"
    using login_store[of K e email password dev ip ua s]
    by (elim disjE exE) (simp_all add: generateTokens_def enqueueLog_def)
  show "pre_regs (snd (refreshTokens K e token dev s)) = pre_regs s"
    by (auto simp: refreshTokens_def refresh_rotate_def revoke_stored_def generateTokens_def
          enqueueLog_def split: sum.splits option.splits)
  show "pre_regs (snd (logout K token s)) = pre_regs s"
    by (auto simp: logout_def enqueueLog_def split: option.splits)
  show "pre_regs (snd (logoutAll e uid s)) = pre_regs s"
    by (simp add: logoutAll_def enqueueLog_def)
  show lo: "pre_regs (try_logoutAll e uid s) = pre_regs s" for uid s
    by (simp add: try_logoutAll_def logoutAll_def enqueueLog_def)
  show "pre_regs (snd (requestPasswordReset K e email s)) = pre_regs s"
    by (auto simp: requestPasswordReset_def issue_reset_token_def sendPasswordResetEmail_def
          save_reset_token_def invalidate_previous_def enqueueLog_def split: option.splits)
  show "pre_regs (snd (resetPassword K e token newPassword s)) = pre_regs s"
    using resetPassword_store[of K e token newPassword s]
    by (elim disjE exE) (simp_all add: enqueueLog_def lo mark_used_def)
qed

lemma next_id_mono:
  "next_id s \<le> next_id (snd (login K e email password dev ip ua s))"
  "next_id s \<le> next_id (snd (refreshTokens K e token dev s))"
proof -
  show "next_id s \<le> next_id (snd (login K e email password dev ip ua s))"
    using login_store[of K e email password dev ip ua s]
    by (elim disjE exE) (simp_all add: generateTokens_def enqueueLog_def)
  show "next_id s \<le> next_id (snd (refreshTokens K e token dev s))"
    by (auto simp: refreshTokens_def refresh_rotate_def revoke_stored_def generateTokens_def
          enqueueLog_def split: sum.splits option.splits)
qed

lemma pr_inv_outbox [simp]: "pr_inv (s\<lparr>outbox := x\<rparr>) = pr_inv s"
  by (simp add: pr_inv_def)

lemma pr_inv_enqueueLog [simp]: "pr_inv (enqueueLog a u s) = pr_inv s"
  by (simp add: pr_inv_def enqueueLog_def)

lemma pr_inv_refresh_pre_reg:
  assumes inv: "pr_inv s" and mem: "p \<in> set (pre_regs s)"
    and fr: "sha256 K (random_token e) \<notin> set (map pr_verification_token_hash (pre_regs s))"
  shows "pr_inv (refresh_pre_reg K e p password full_name ip ua s)"
proof -
  let ?p' = "p\<lparr>pr_password_hash := bcrypt_hash K password 12,
             pr_full_name := Some (case full_name of None \<Rightarrow> [] | Some n \<Rightarrow> n),
             pr_verification_token_hash := sha256 K (random_token e),
             pr_expires_at := now e + 60 * 60 * 1000,
             pr_ip := ip, pr_user_agent := ua\<rparr>"
  let ?rows = "map (\<lambda>y. if y = p then ?p' else y) (pre_regs s)"
  have rows: "pre_regs (refresh_pre_reg K e p password full_name ip ua s) = ?rows"
    using inv mem by (simp add: refresh_pre_reg_def pr_inv_def save_by_update)
  have other: "next_id (refresh_pre_reg K e p password full_name ip ua s) = next_id s"
    by (simp add: refresh_pre_reg_def)
  have ids: "map pr_id ?rows = map pr_id (pre_regs s)"
    by (rule map_proj_update) simp
  have emails: "map pr_email ?rows = map pr_email (pre_regs s)"
    by (rule map_proj_update) simp
  have hashes: "distinct (map pr_verification_token_hash ?rows)"
    by (rule distinct_update_fresh) (use inv fr in \<open>simp_all add: pr_inv_def\<close>)
  have a: "\<forall>q\<in>set ?rows. pr_id q < next_id s"
  proof
    fix q assume "q \<in> set ?rows"
    from set_update[OF this] inv mem show "pr_id q < next_id s"
      by (auto simp: pr_inv_def)
  qed
  show ?thesis
    unfolding pr_inv_def rows other ids emails
    using inv hashes a by (simp add: pr_inv_def)
qed

lemma pr_inv_create_pre_reg:
  assumes inv: "pr_inv s"
    and new: "find (\<lambda>p. pr_email p = toLowerCase K email) (pre_regs s) = None"
    and fr: "sha256 K (random_token e) \<notin> set (map pr_verification_token_hash (pre_regs s))"
  shows "pr_inv (create_pre_reg K e email password full_name ip ua s)"
proof -
  have "toLowerCase K email \<notin> set (map pr_email (pre_regs s))"
    using new by (auto simp: find_None_set)
  moreover have "next_id s \<notin> set (map pr_id (pre_regs s))"
    using inv by (auto simp: pr_inv_def)
  ultimately show ?thesis
    using inv fr by (auto simp: pr_inv_def create_pre_reg_def less_Suc_eq)
qed

lemma pr_inv_register:
  assumes inv: "pr_inv s"
    and fr: "sha256 K (random_token e) \<notin> set (map pr_verification_token_hash (pre_regs s))"
  shows "pr_inv (snd (register K e email password full_name ip ua s))"
proof (cases "findByEmail s (toLowerCase K email)")
  case (Some u)
  then show ?thesis using inv by (simp add: register_def)
next
  case None
  show ?thesis
  proof (cases "find (\<lambda>p. pr_email p = toLowerCase K email) (pre_regs s)")
    case (Some p)
    from find_Some_mem[OF Some] have "p \<in> set (pre_regs s)" by simp
    from pr_inv_refresh_pre_reg[OF inv this fr]
    have "pr_inv (refresh_pre_reg K e p password full_name ip ua s)" .
    then show ?thesis using None Some
      by (simp add: register_def sendVerificationEmail_def)
  next
    case no: None
    from pr_inv_create_pre_reg[OF inv no fr]
    have "pr_inv (create_pre_reg K e email password full_name ip ua s)" .
    then show ?thesis using None no
      by (simp add: register_def sendVerificationEmail_def)
  qed
qed

text \<open>The three outcomes of \<^verbatim>\<open>verifyEmail\<close> for a pending row that has not expired.\<close>

lemma verifyEmail_found:
  assumes inv: "pr_inv s" and mem: "p \<in> set (pre_regs s)"
    and h: "pr_verification_token_hash p = sha256 K token"
  shows "find (\<lambda>q. pr_verification_token_hash q = sha256 K token) (pre_regs s) = Some p"
  using find_unique[of pr_verification_token_hash "pre_regs s" p] inv mem h
  by (simp add: pr_inv_def)

lemma verifyEmail_success:
  assumes inv: "pr_inv s" and mem: "p \<in> set (pre_regs s)"
    and h: "pr_verification_token_hash p = sha256 K token"
    and live: "\<not> pr_expires_at p < now e" and ok: "\<not> user_save_fails e"
    and free: "\<not> email_held s (pr_email p)"
  shows "verifyEmail K e token s = (Inr (Verified ''Email successfully verified''), verified_store p s)"
proof -
  note f = verifyEmail_found[OF inv mem h]
  have nouser: "findByEmail s (pr_email p) = None"
    by (rule not_held_findByEmail[OF free])
  have del: "filter (\<lambda>q. pr_id q \<noteq> pr_id p) (pre_regs s) = removeAll p (pre_regs s)"
    using inv mem by (intro filter_key_removeAll) (simp_all add: pr_inv_def)
  show ?thesis
    by (simp add: verifyEmail_def f live createUser_def nouser ok free del verified_store_def
          new_user_def)
qed

lemma verifyEmail_conflict:
  assumes inv: "pr_inv s" and mem: "p \<in> set (pre_regs s)"
    and h: "pr_verification_token_hash p = sha256 K token"
    and live: "\<not> pr_expires_at p < now e" and taken: "findByEmail s (pr_email p) \<noteq> None"
  shows "verifyEmail K e token s = (Inl (ConflictException ''Email already exists''), s)"
  using taken by (auto simp: verifyEmail_def verifyEmail_found[OF inv mem h] live createUser_def)

lemma verifyEmail_rejected:
  assumes inv: "pr_inv s" and mem: "p \<in> set (pre_regs s)"
    and h: "pr_verification_token_hash p = sha256 K token"
    and live: "\<not> pr_expires_at p < now e" and nouser: "findByEmail s (pr_email p) = None"
    and rej: "email_held s (pr_email p) \<or> user_save_fails e"
  shows "verifyEmail K e token s = (Inl (InternalServerErrorException ''Failed to create user''), s)"
  using rej by (auto simp: verifyEmail_def verifyEmail_found[OF inv mem h] live createUser_def nouser)

lemma pr_inv_verified_store:
  assumes inv: "pr_inv s" and mem: "p \<in> set (pre_regs s)"
  shows "pr_inv (verified_store p s)"
proof -
  have d: "distinct (map pr_id (removeAll p (pre_regs s)))"
    "distinct (map pr_verification_token_hash (removeAll p (pre_regs s)))"
    "distinct (map pr_email (removeAll p (pre_regs s)))"
    using inv by (simp_all add: pr_inv_def removeAll_filter_not_eq distinct_map_filter)
  have ids: "\<forall>q\<in>set (removeAll p (pre_regs s)). pr_id q < Suc (next_id s)"
    using inv by (auto simp: pr_inv_def less_Suc_eq)
  show ?thesis
    unfolding pr_inv_def using d ids
    by (simp add: verified_store_def enqueueLog_def)
qed

lemma pr_inv_verifyEmail:
  assumes inv: "pr_inv s"
  shows "pr_inv (snd (verifyEmail K e token s))"
proof (cases "find (\<lambda>q. pr_verification_token_hash q = sha256 K token) (pre_regs s)")
  case None
  then show ?thesis using inv by (simp add: verifyEmail_def)
next
  case (Some p)
  from find_Some_mem[OF Some] have mem: "p \<in> set (pre_regs s)"
    and h: "pr_verification_token_hash p = sha256 K token" by simp_all
  show ?thesis
  proof (cases "pr_expires_at p < now e \<or> user_save_fails e \<or> email_held s (pr_email p)")
    case True
    then have "snd (verifyEmail K e token s) = s"
      using Some by (auto simp: verifyEmail_def createUser_def split: option.splits)
    then show ?thesis using inv by simp
  next
    case False
    then have "verifyEmail K e token s
                 = (Inr (Verified ''Email successfully verified''), verified_store p s)"
      by (intro verifyEmail_success[OF inv mem h]) simp_all
    then show ?thesis using pr_inv_verified_store[OF inv mem] by simp
  qed
qed

lemma pr_inv_step:
  assumes "pr_inv s" "fresh K e a s"
  shows "pr_inv (snd (exec K e a s))"
proof (cases a)
  case (Register email password full_name ip ua)
  then show ?thesis using assms by (simp add: pr_inv_register)
next
  case (VerifyEmail token)
  then show ?thesis using assms by (simp add: pr_inv_verifyEmail)
next
  case (Login email password dev ip ua)
  have "pr_inv (snd (login K e email password dev ip ua s))"
    by (rule pr_inv_frame[OF assms(1)]) (simp_all add: pre_regs_frames next_id_mono)
  then show ?thesis using Login by simp
next
  case (RefreshTokens token dev)
  have "pr_inv (snd (refreshTokens K e token dev s))"
    by (rule pr_inv_frame[OF assms(1)]) (simp_all add: pre_regs_frames next_id_mono)
  then show ?thesis using RefreshTokens by simp
next
  case (Logout token)
  have "pr_inv (snd (logout K token s))"
    by (rule pr_inv_frame[OF assms(1)])
       (simp_all add: pre_regs_frames logout_def enqueueLog_def split: option.splits)
  then show ?thesis using Logout by simp
next
  case (LogoutAll uid)
  have "pr_inv (snd (logoutAll e uid s))"
    by (rule pr_inv_frame[OF assms(1)]) (simp_all add: pre_regs_frames logoutAll_rows)
  then show ?thesis using LogoutAll by simp
next
  case (RequestPasswordReset email)
  have "pr_inv (snd (requestPasswordReset K e email s))"
    by (rule pr_inv_frame[OF assms(1)]) (simp_all add: pre_regs_frames requestPasswordReset_frame)
  then show ?thesis using RequestPasswordReset by simp
next
  case (VerifyResetToken token)
  then show ?thesis using assms by (simp add: verifyResetToken_frame)
next
  case (ResetPassword token newPassword)
  have "pr_inv (snd (resetPassword K e token newPassword s))"
    by (rule pr_inv_frame[OF assms(1)]) (simp_all add: pre_regs_frames resetPassword_rows)
  then show ?thesis using ResetPassword by simp
next
  case (UpdateUser userId dto ip ua)
  have "pr_inv (snd (updateUser K userId dto ip ua s))"
    by (rule pr_inv_frame[OF assms(1)]) (simp_all add: updateUser_frame)
  then show ?thesis using UpdateUser by simp
next
  case (DeleteUser userId ip ua)
  have "pr_inv (snd (deleteUser e userId ip ua s))"
    by (rule pr_inv_frame[OF assms(1)]) (simp_all add: deleteUser_frame)
  then show ?thesis using DeleteUser by simp
qed

lemma pr_inv_run: "pr_inv s \<Longrightarrow> fresh_run K tr s \<Longrightarrow> pr_inv (run K tr s)"
  by (induction tr arbitrary: s) (auto simp: pr_inv_step)

lemma pr_inv_init: "pr_inv init"
  by (simp add: pr_inv_def init_def)

text \<open>
  C3, as the code has it. In every store reached from the empty one by calls that mint fresh
  tokens, for every pending PreRegistration that has not expired, the first \<^verbatim>\<open>verifyEmail\<close>
  with its raw token has one of three outcomes. When no user row holds the row's email and the
  new user row can be saved, it succeeds, adds exactly one User (for the row's email, with the
  verification flag true) and deletes exactly that PreRegistration, and a second
  \<^verbatim>\<open>verifyEmail\<close> with the same token then fails with "Invalid or expired token". When
  \<^verbatim>\<open>findByEmail\<close> returns a user for the email (\<^verbatim>\<open>updateUser\<close> can give a user the email
  of a pending row), it fails with Conflict "Email already exists". Otherwise (the email is
  held by a soft-deleted row, or the save fails) it fails with Internal "Failed to create
  user". In both failures nothing is written and the PreRegistration stays.
\<close>

theorem verification_token_redeemed_once:
  assumes "fresh_run K tr init"
  shows "p \<in> set (pre_regs (run K tr init)) \<and> pr_verification_token_hash p = sha256 K token
         \<and> \<not> pr_expires_at p < now e \<longrightarrow>
       (\<not> email_held (run K tr init) (pr_email p) \<and> \<not> user_save_fails e \<longrightarrow>
          fst (verifyEmail K e token (run K tr init)) = Inr (Verified ''Email successfully verified'')
        \<and> users (snd (verifyEmail K e token (run K tr init)))
            = users (run K tr init)
              @ [new_user (next_id (run K tr init)) (pr_email p) (pr_password_hash p)
                   (pr_full_name p) (Some True)]
        \<and> u_is_email_verified (last (users (snd (verifyEmail K e token (run K tr init)))))
        \<and> pre_regs (snd (verifyEmail K e token (run K tr init)))
            = removeAll p (pre_regs (run K tr init))
        \<and> fst (verifyEmail K e' token (snd (verifyEmail K e token (run K tr init))))
            = Inl (ConflictException ''Invalid or expired token''))
     \<and> (findByEmail (run K tr init) (pr_email p) \<noteq> None \<longrightarrow>
          verifyEmail K e token (run K tr init)
            = (Inl (ConflictException ''Email already exists''), run K tr init))
     \<and> (findByEmail (run K tr init) (pr_email p) = None
          \<and> (email_held (run K tr init) (pr_email p) \<or> user_save_fails e) \<longrightarrow>
          verifyEmail K e token (run K tr init)
            = (Inl (InternalServerErrorException ''Failed to create user''), run K tr init))"
proof
  let ?s = "run K tr init"
  assume a: "p \<in> set (pre_regs ?s) \<and> pr_verification_token_hash p = sha256 K token
         \<and> \<not> pr_expires_at p < now e"
  have inv: "pr_inv ?s"
    by (rule pr_inv_run[OF pr_inv_init assms])
  from a have mem: "p \<in> set (pre_regs ?s)" and h: "pr_verification_token_hash p = sha256 K token"
    and live: "\<not> pr_expires_at p < now e"
    by simp_all
  have first: "fst (verifyEmail K e token ?s) = Inr (Verified ''Email successfully verified'')
        \<and> users (snd (verifyEmail K e token ?s))
            = users ?s @ [new_user (next_id ?s) (pr_email p) (pr_password_hash p)
                            (pr_full_name p) (Some True)]
        \<and> u_is_email_verified (last (users (snd (verifyEmail K e token ?s))))
        \<and> pre_regs (snd (verifyEmail K e token ?s)) = removeAll p (pre_regs ?s)
        \<and> fst (verifyEmail K e' token (snd (verifyEmail K e token ?s)))
            = Inl (ConflictException ''Invalid or expired token'')"
    if b: "\<not> email_held ?s (pr_email p) \<and> \<not> user_save_fails e"
  proof -
    have v: "verifyEmail K e token ?s
               = (Inr (Verified ''Email successfully verified''), verified_store p ?s)"
      using b by (intro verifyEmail_success[OF inv mem h live]) simp_all
    have gone: "find (\<lambda>q. pr_verification_token_hash q = sha256 K token)
                  (pre_regs (verified_store p ?s)) = None"
    proof -
      have "q = p" if "q \<in> set (pre_regs ?s)" "pr_verification_token_hash q = sha256 K token" for q
        using distinct_key_eq[of pr_verification_token_hash "pre_regs ?s" p q] inv mem h that
        by (simp add: pr_inv_def)
      then show ?thesis
        by (auto simp: find_None_set verified_store_def enqueueLog_def)
    qed
    have second: "fst (verifyEmail K e' token (verified_store p ?s))
                    = Inl (ConflictException ''Invalid or expired token'')"
      by (simp add: verifyEmail_def gone)
    show ?thesis
      using second by (simp add: v) (simp add: verified_store_def enqueueLog_def new_user_def)
  qed
  show "(\<not> email_held ?s (pr_email p) \<and> \<not> user_save_fails e \<longrightarrow>
          fst (verifyEmail K e token ?s) = Inr (Verified ''Email successfully verified'')
        \<and> users (snd (verifyEmail K e token ?s))
            = users ?s @ [new_user (next_id ?s) (pr_email p) (pr_password_hash p)
                            (pr_full_name p) (Some True)]
        \<and> u_is_email_verified (last (users (snd (verifyEmail K e token ?s))))
        \<and> pre_regs (snd (verifyEmail K e token ?s)) = removeAll p (pre_regs ?s)
        \<and> fst (verifyEmail K e' token (snd (verifyEmail K e token ?s)))
            = Inl (ConflictException ''Invalid or expired token''))
     \<and> (findByEmail ?s (pr_email p) \<noteq> None \<longrightarrow>
          verifyEmail K e token ?s = (Inl (ConflictException ''Email already exists''), ?s))
     \<and> (findByEmail ?s (pr_email p) = None
          \<and> (email_held ?s (pr_email p) \<or> user_save_fails e) \<longrightarrow>
          verifyEmail K e token ?s
            = (Inl (InternalServerErrorException ''Failed to create user''), ?s))"
    (is "?A \<and> ?B \<and> ?C")
  proof (intro conjI)
    show ?A
      by (intro impI) (erule first)
    show ?B
      by (intro impI) (erule verifyEmail_conflict[OF inv mem h live])
    show ?C
      by (intro impI verifyEmail_rejected[OF inv mem h live]) simp_all
  qed
qed

theorem verification_token_redeemed_once_witness:
  "fst (verifyEmail K0 (env0 5 []) ''v1'' (run K0 tr_registered init))
     = Inr (Verified ''Email successfully verified'')
   \<and> map (\<lambda>u. (u_email u, u_is_email_verified u))
        (users (snd (verifyEmail K0 (env0 5 []) ''v1'' (run K0 tr_registered init))))
       = [(''a@x.com'', True)]
   \<and> pre_regs (snd (verifyEmail K0 (env0 5 []) ''v1'' (run K0 tr_registered init))) = []
   \<and> fst (verifyEmail K0 (env0 6 []) ''v1''
            (snd (verifyEmail K0 (env0 5 []) ''v1'' (run K0 tr_registered init))))
       = Inl (ConflictException ''Invalid or expired token'')
   \<and> fst (verifyEmail K0 (env0 40 []) ''v2'' (run K0 tr_email_taken init))
       = Inl (ConflictException ''Email already exists'')
   \<and> fst (verifyEmail K0 (env0 40 []) ''v2'' (run K0 tr_email_deleted init))
       = Inl (InternalServerErrorException ''Failed to create user'')"
proof -
  have reach: "fresh_run K0 tr_registered init"
    by (simp add: tr_registered_def fixture_defs op_defs)
  have st: "pre_regs (run K0 tr_registered init) = [p_registered]"
    "users (run K0 tr_registered init) = []" "next_id (run K0 tr_registered init) = 1"
    by (simp_all add: tr_registered_def p_registered_def fixture_defs op_defs)
  have hyp: "p_registered \<in> set (pre_regs (run K0 tr_registered init))"
    "pr_verification_token_hash p_registered = sha256 K0 ''v1''"
    "\<not> pr_expires_at p_registered < now (env0 5 [])" "\<not> user_save_fails (env0 5 [])"
    "\<not> email_held (run K0 tr_registered init) (pr_email p_registered)"
    by (simp_all add: st email_held_def) (simp_all add: p_registered_def fixture_defs)
  from verification_token_redeemed_once[OF reach, of p_registered "''v1''" "env0 5 []" "env0 6 []"] hyp
  have one: "fst (verifyEmail K0 (env0 5 []) ''v1'' (run K0 tr_registered init))
     = Inr (Verified ''Email successfully verified'')
   \<and> map (\<lambda>u. (u_email u, u_is_email_verified u))
        (users (snd (verifyEmail K0 (env0 5 []) ''v1'' (run K0 tr_registered init))))
       = [(''a@x.com'', True)]
   \<and> pre_regs (snd (verifyEmail K0 (env0 5 []) ''v1'' (run K0 tr_registered init))) = []
   \<and> fst (verifyEmail K0 (env0 6 []) ''v1''
            (snd (verifyEmail K0 (env0 5 []) ''v1'' (run K0 tr_registered init))))
       = Inl (ConflictException ''Invalid or expired token'')"
    by (simp add: st) (simp add: new_user_def p_registered_def)
  have two: "fst (verifyEmail K0 (env0 40 []) ''v2'' (run K0 tr_email_taken init))
               = Inl (ConflictException ''Email already exists'')"
    using verification_token_redeemed_once[OF email_taken_reached(2), of p_taken "''v2''"
            "env0 40 []" "env0 6 []"]
    by (simp add: email_taken_reached(1)) (simp add: fixture3_defs fixture_defs findByEmail_def)
  have three: "fst (verifyEmail K0 (env0 40 []) ''v2'' (run K0 tr_email_deleted init))
                 = Inl (InternalServerErrorException ''Failed to create user'')"
    using verification_token_redeemed_once[OF email_deleted_reached(2), of p_deleted "''v2''"
            "env0 40 []" "env0 6 []"]
    by (simp add: email_deleted_reached(1))
       (simp add: fixture3_defs fixture_defs findByEmail_def email_held_def)
  from one two three show ?thesis by simp
qed

theorem verify_email_counterexample:
  "p_taken \<in> set (pre_regs (run K0 tr_email_taken init))
   \<and> pr_verification_token_hash p_taken = sha256 K0 ''v2''
   \<and> now (env0 40 []) \<le> pr_expires_at p_taken
   \<and> fst (verifyEmail K0 (env0 40 []) ''v2'' (run K0 tr_email_taken init))
       = Inl (ConflictException ''Email already exists'')
   \<and> pre_regs (snd (verifyEmail K0 (env0 40 []) ''v2'' (run K0 tr_email_taken init))) = [p_taken]
   \<and> p_deleted \<in> set (pre_regs (run K0 tr_email_deleted init))
   \<and> pr_verification_token_hash p_deleted = sha256 K0 ''v2''
   \<and> now (env0 40 []) \<le> pr_expires_at p_deleted
   \<and> fst (verifyEmail K0 (env0 40 []) ''v2'' (run K0 tr_email_deleted init))
       = Inl (InternalServerErrorException ''Failed to create user'')
   \<and> pre_regs (snd (verifyEmail K0 (env0 40 []) ''v2'' (run K0 tr_email_deleted init)))
       = [p_deleted]"
  unfolding email_taken_reached(1) email_deleted_reached(1)
  by (simp add: fixture3_defs fixture_defs op_defs)

end
